theory Spec2Isabelle
  imports Complex_Main
begin

section \<open>Calendar dates as the JavaScript \<open>Date\<close> object exposes them\<close>

text \<open>
  The recurring-transaction engine of BudgetBuddy lives in
  \<open>budgetbuddy-backend/src/controllers/recurringController.js\<close>. Its date arithmetic
  uses the local-time accessors of \<open>Date\<close>: \<open>getDate\<close>, \<open>getMonth\<close>,
  \<open>getFullYear\<close>, the matching setters and \<open>setHours\<close>. A \<open>Date\<close> is a time value;
  it is modelled by what those accessors read and write, its fields in local time: the
  year, the month numbered from 0 (January) to 11 (December) as \<open>getMonth\<close> does, the
  day of the month, and the milliseconds elapsed since local midnight. Local time is
  taken to lie at a fixed offset from UTC: a date-only string such as \<open>2025-02-01\<close>,
  which \<open>new Date\<close> reads as midnight UTC, has \<open>millis = 0\<close> where local time is UTC
  and \<open>millis = 19800000\<close> (05:30) where it is five and a half hours ahead.
\<close>

record date =
  year :: int
  month :: int
  day :: int
  millis :: int

definition isLeapYear :: "int \<Rightarrow> bool" where
  "isLeapYear y = ((y mod 4 = 0 \<and> y mod 100 \<noteq> 0) \<or> y mod 400 = 0)"

text \<open>Days of month \<open>m\<close> (0-based) of year \<open>y\<close> in the proleptic Gregorian calendar.\<close>

definition daysInMonth :: "int \<Rightarrow> int \<Rightarrow> int" where
  "daysInMonth y m =
     (if m = 1 then (if isLeapYear y then 29 else 28)
      else if m = 3 \<or> m = 5 \<or> m = 8 \<or> m = 10 then 30
      else 31)"

definition valid_date :: "date \<Rightarrow> bool" where
  "valid_date d =
     (0 \<le> month d \<and> month d \<le> 11 \<and> 1 \<le> day d \<and> day d \<le> daysInMonth (year d) (month d)
      \<and> 0 \<le> millis d \<and> millis d < 86400000)"

text \<open>
  Two \<open>Date\<close> objects are compared through their time values (\<open><\<close>, \<open><=\<close>, \<open>>\<close> in
  the code, \<open>lte\<close> in a query). On the local fields that is the lexicographic order of
  year, month, day and time of day.
\<close>

definition date_lt :: "date \<Rightarrow> date \<Rightarrow> bool" where
  "date_lt a b =
     (year a < year b
      \<or> (year a = year b
          \<and> (month a < month b
              \<or> (month a = month b
                  \<and> (day a < day b \<or> (day a = day b \<and> millis a < millis b))))))"

definition date_le :: "date \<Rightarrow> date \<Rightarrow> bool" where
  "date_le a b = (date_lt a b \<or> a = b)"

lemma daysInMonth_lower: "28 \<le> daysInMonth y m"
  by (simp add: daysInMonth_def)

lemma daysInMonth_upper: "daysInMonth y m \<le> 31"
  by (simp add: daysInMonth_def)

text \<open>
  The setters go through the abstract operation MakeDay of ECMAScript: a day number
  outside its month is carried into the following months, or borrowed from the
  preceding ones, until it names a day that exists. \<open>rollDay\<close> does the carrying for a
  month already in the range 0..11 and gives the start of the day found.
\<close>

function rollDay :: "int \<Rightarrow> int \<Rightarrow> int \<Rightarrow> date" where
  "rollDay y m d =
     (if d < 1 then
        (let y' = (if m = 0 then y - 1 else y);
             m' = (if m = 0 then 11 else m - 1)
         in rollDay y' m' (d + daysInMonth y' m'))
      else if daysInMonth y m < d then
        (let y' = (if m = 11 then y + 1 else y);
             m' = (if m = 11 then 0 else m + 1)
         in rollDay y' m' (d - daysInMonth y m))
      else \<lparr>year = y, month = m, day = d, millis = 0\<rparr>)"
  by pat_completeness auto
termination
proof (relation "measures [\<lambda>(y, m, d). nat (1 - d), \<lambda>(y, m, d). nat d]")
  show "wf (measures [\<lambda>(y, m, d). nat (1 - d), \<lambda>(y :: int, m :: int, d). nat d])"
    by simp
next
  fix y m d :: int and y' m' :: int
  assume "d < 1" "y' = (if m = 0 then y - 1 else y)" "m' = (if m = 0 then 11 else m - 1)"
  moreover have "28 \<le> daysInMonth y' m'" by (rule daysInMonth_lower)
  ultimately show "((y', m', d + daysInMonth y' m'), (y, m, d))
      \<in> measures [\<lambda>(y, m, d). nat (1 - d), \<lambda>(y, m, d). nat d]"
    by simp
next
  fix y m d :: int and y' m' :: int
  assume "\<not> d < 1" "daysInMonth y m < d"
  moreover have "28 \<le> daysInMonth y m" by (rule daysInMonth_lower)
  ultimately show "((y', m', d - daysInMonth y m), (y, m, d))
      \<in> measures [\<lambda>(y, m, d). nat (1 - d), \<lambda>(y, m, d). nat d]"
    by simp
qed

declare rollDay.simps [simp del]

text \<open>MakeDay: the month is brought into 0..11 first, carrying whole years.\<close>

definition makeDay :: "int \<Rightarrow> int \<Rightarrow> int \<Rightarrow> date" where
  "makeDay y m d = rollDay (y + m div 12) (m mod 12) d"

text \<open>MakeDate: the time within the day is put back on the day found.\<close>

definition makeDate :: "date \<Rightarrow> int \<Rightarrow> date" where
  "makeDate dy tm = dy\<lparr>millis := tm\<rparr>"

definition getDate :: "date \<Rightarrow> int" where
  "getDate d = day d"

definition getMonth :: "date \<Rightarrow> int" where
  "getMonth d = month d"

definition getFullYear :: "date \<Rightarrow> int" where
  "getFullYear d = year d"

definition setDate :: "date \<Rightarrow> int \<Rightarrow> date" where
  "setDate d n = makeDate (makeDay (year d) (month d) n) (millis d)"

definition setMonth :: "date \<Rightarrow> int \<Rightarrow> date" where
  "setMonth d m = makeDate (makeDay (year d) m (day d)) (millis d)"

definition setFullYear :: "date \<Rightarrow> int \<Rightarrow> date" where
  "setFullYear d y = makeDate (makeDay y (month d) (day d)) (millis d)"

text \<open>\<open>setHours(0, 0, 0, 0)\<close>: local midnight of the same day.\<close>

definition startOfDay :: "date \<Rightarrow> date" where
  "startOfDay d = d\<lparr>millis := 0\<rparr>"

section \<open>The recurrence calculator\<close>

datatype error =
    InvalidFrequency string
  | StoreError
  | RecordNotFound

text \<open>
  \<open>calculateNextDate\<close> (recurringController.js, lines 415 to 449). The \<open>switch\<close> on
  the frequency string is the chain of comparisons below; its \<open>default\<close> branch throws.
  The leap test of the yearly branch uses the remainder \<open>%\<close>, which is zero exactly when
  \<open>mod\<close> is.
\<close>

definition calculateNextDate :: "date \<Rightarrow> string \<Rightarrow> error + date" where
  "calculateNextDate currentDate frequency =
     (let next = currentDate in
      if frequency = ''daily'' then Inr (setDate next (getDate next + 1))
      else if frequency = ''weekly'' then Inr (setDate next (getDate next + 7))
      else if frequency = ''monthly'' then
        (let originalDay = getDate next;
             next = setMonth next (getMonth next + 1)
         in if getDate next \<noteq> originalDay then Inr (setDate next 0) else Inr next)
      else if frequency = ''yearly'' then
        (let next = setFullYear next (getFullYear next + 1)
         in if getMonth next = 2 \<and> getDate next = 29 then
              (let yr = getFullYear next;
                   isLeap = ((yr mod 4 = 0 \<and> yr mod 100 \<noteq> 0) \<or> yr mod 400 = 0)
               in if \<not> isLeap then Inr (setDate next 28) else Inr next)
            else Inr next)
      else Inl (InvalidFrequency frequency))"

section \<open>The persistent store\<close>

text \<open>
  The controller reaches the database through Prisma. Two template tables
  (\<open>recurringExpense\<close>, \<open>recurringIncome\<close>) and the two tables of generated entries
  (\<open>expense\<close>, \<open>income\<close>) have the same columns but for the descriptive ones, which
  are the type parameter \<open>'d\<close> below. The column \<open>id\<close> is called \<open>rid\<close> here, \<open>id\<close>
  being the identity function of HOL. The bookkeeping columns \<open>createdAt\<close> and
  \<open>updatedAt\<close> and the identifier of a generated entry play no part and are left out.
  An amount is a JavaScript number; it is only stored, copied and compared with zero,
  and is modelled as a rational.
\<close>

record expenseFields =
  description :: string
  category :: string

record incomeFields =
  source :: string

record 'd recurring =
  rid :: string
  userId :: string
  amount :: rat
  details :: 'd
  frequency :: string
  startDate :: date
  nextDate :: date
  endDate :: "date option"
  isActive :: bool

record 'd entry =
  entryUserId :: string
  entryAmount :: rat
  entryDetails :: 'd
  entryDate :: date
  isRecurring :: bool
  recurringId :: "string option"

text \<open>
  Every Prisma call is an \<open>await\<close> that may reject. The store carries the schedule of
  the rejections still to come: one flag for each call yet to be made, \<open>True\<close> when the
  call is to throw; an exhausted schedule means that no further call fails. A call that
  throws changes no row.
\<close>

record world =
  recurringExpense :: "expenseFields recurring list"
  expense :: "expenseFields entry list"
  recurringIncome :: "incomeFields recurring list"
  income :: "incomeFields entry list"
  pending :: "bool list"

text \<open>The part of the store one of the two loops of the batch processor works on.\<close>

record 'd tables =
  templates :: "'d recurring list"
  entries :: "'d entry list"
  faults :: "bool list"

definition attempt :: "bool list \<Rightarrow> bool \<times> bool list" where
  "attempt fs = (case fs of [] \<Rightarrow> (False, []) | f # rest \<Rightarrow> (f, rest))"

text \<open>
  \<open>findMany({ where: { isActive: true, nextDate: { lte: today } } })\<close>: the rows come
  back in table order. \<open>lte\<close> compares the stored time value with that of \<open>today\<close>,
  time of day included.
\<close>

definition isDue :: "date \<Rightarrow> 'd recurring \<Rightarrow> bool" where
  "isDue today r = (isActive r \<and> date_le (nextDate r) today)"

definition findDue :: "date \<Rightarrow> 'd tables \<Rightarrow> (error + 'd recurring list) \<times> 'd tables" where
  "findDue today t =
     (case attempt (faults t) of
        (True, fs) \<Rightarrow> (Inl StoreError, t\<lparr>faults := fs\<rparr>)
      | (False, fs) \<Rightarrow> (Inr (filter (isDue today) (templates t)), t\<lparr>faults := fs\<rparr>))"

text \<open>
  \<open>update({ where: { id }, data })\<close>: the one row with that primary key is changed;
  Prisma throws when there is none.
\<close>

definition updateTemplate ::
  "string \<Rightarrow> ('d recurring \<Rightarrow> 'd recurring) \<Rightarrow> 'd tables \<Rightarrow> (error + unit) \<times> 'd tables" where
  "updateTemplate i f t =
     (case attempt (faults t) of
        (True, fs) \<Rightarrow> (Inl StoreError, t\<lparr>faults := fs\<rparr>)
      | (False, fs) \<Rightarrow>
          (if i \<notin> set (map rid (templates t)) then (Inl RecordNotFound, t\<lparr>faults := fs\<rparr>)
           else (Inr (), t\<lparr>templates := map (\<lambda>r. if rid r = i then f r else r) (templates t),
                             faults := fs\<rparr>)))"

definition createEntry :: "'d entry \<Rightarrow> 'd tables \<Rightarrow> (error + unit) \<times> 'd tables" where
  "createEntry e t =
     (case attempt (faults t) of
        (True, fs) \<Rightarrow> (Inl StoreError, t\<lparr>faults := fs\<rparr>)
      | (False, fs) \<Rightarrow> (Inr (), t\<lparr>entries := entries t @ [e], faults := fs\<rparr>))"

section \<open>The batch processor\<close>

text \<open>
  The entry generated for a template (lines 478 to 488 and 522 to 531): it copies the
  owner, the amount and the descriptive columns, is dated the template's stored
  \<open>nextDate\<close>, and points back to the template.
\<close>

definition entryOf :: "'d recurring \<Rightarrow> 'd entry" where
  "entryOf recurring =
     \<lparr>entryUserId = userId recurring, entryAmount = amount recurring,
      entryDetails = details recurring, entryDate = nextDate recurring,
      isRecurring = True, recurringId = Some (rid recurring)\<rparr>"

text \<open>
  The guard \<open>recurring.endDate && recurring.endDate < today\<close> (lines 470 and 514) and
  the flag \<open>recurring.endDate && nextDate > recurring.endDate\<close> (lines 493 and 535): a
  \<open>null\<close> end date is falsy, otherwise the two time values are compared.
\<close>

definition expired :: "date \<Rightarrow> 'd recurring \<Rightarrow> bool" where
  "expired today recurring =
     (case endDate recurring of None \<Rightarrow> False | Some e \<Rightarrow> date_lt e today)"

definition shouldDeactivate :: "'d recurring \<Rightarrow> date \<Rightarrow> bool" where
  "shouldDeactivate recurring nd =
     (case endDate recurring of None \<Rightarrow> False | Some e \<Rightarrow> date_lt e nd)"

text \<open>
  The body of \<open>for (const recurring of due)\<close> (lines 469 to 502 for expenses, 513 to
  544 for incomes). \<open>recurring\<close> is the row as \<open>findMany\<close> returned it, not re-read.
  Nothing in the loop catches: the first call that throws ends the loop, and the
  handler's only \<open>catch\<close> (line 555) turns it into the response. The number of entries
  created so far is the argument \<open>created\<close>.
\<close>

fun processDue ::
  "date \<Rightarrow> 'd recurring list \<Rightarrow> nat \<Rightarrow> 'd tables \<Rightarrow> (error + nat) \<times> 'd tables" where
  "processDue today [] created t = (Inr created, t)"
| "processDue today (recurring # rest) created t =
     (if expired today recurring then
        (case updateTemplate (rid recurring) (\<lambda>r. r\<lparr>isActive := False\<rparr>) t of
           (Inl err, t1) \<Rightarrow> (Inl err, t1)
         | (Inr u, t1) \<Rightarrow> processDue today rest created t1)
      else
        (case createEntry (entryOf recurring) t of
           (Inl err, t1) \<Rightarrow> (Inl err, t1)
         | (Inr u, t1) \<Rightarrow>
             (case calculateNextDate (nextDate recurring) (frequency recurring) of
                Inl err \<Rightarrow> (Inl err, t1)
              | Inr nd \<Rightarrow>
                  (case updateTemplate (rid recurring)
                          (\<lambda>r. r\<lparr>nextDate := nd, isActive := \<not> shouldDeactivate recurring nd\<rparr>) t1 of
                     (Inl err, t2) \<Rightarrow> (Inl err, t2)
                   | (Inr u, t2) \<Rightarrow> processDue today rest (created + 1) t2))))"

text \<open>One query and its loop: the number of entries created and the number of due rows.\<close>

definition sweep :: "date \<Rightarrow> 'd tables \<Rightarrow> (error + nat \<times> nat) \<times> 'd tables" where
  "sweep today t =
     (case findDue today t of
        (Inl err, t1) \<Rightarrow> (Inl err, t1)
      | (Inr due, t1) \<Rightarrow>
          (case processDue today due 0 t1 of
             (Inl err, t2) \<Rightarrow> (Inl err, t2)
           | (Inr created, t2) \<Rightarrow> (Inr (created, length due), t2)))"

record summary =
  expensesCreated :: nat
  incomesCreated :: nat
  totalProcessed :: nat

definition expenseTables :: "world \<Rightarrow> expenseFields tables" where
  "expenseTables w = \<lparr>templates = recurringExpense w, entries = expense w, faults = pending w\<rparr>"

definition incomeTables :: "world \<Rightarrow> incomeFields tables" where
  "incomeTables w = \<lparr>templates = recurringIncome w, entries = income w, faults = pending w\<rparr>"

definition putExpenseTables :: "expenseFields tables \<Rightarrow> world \<Rightarrow> world" where
  "putExpenseTables t w = w\<lparr>recurringExpense := templates t, expense := entries t, pending := faults t\<rparr>"

definition putIncomeTables :: "incomeFields tables \<Rightarrow> world \<Rightarrow> world" where
  "putIncomeTables t w = w\<lparr>recurringIncome := templates t, income := entries t, pending := faults t\<rparr>"

text \<open>
  \<open>processRecurringTransactions\<close> (lines 452 to 563). \<open>now\<close> is the value of
  \<open>new Date()\<close>; \<open>today\<close> is that date after \<open>setHours(0, 0, 0, 0)\<close>, local midnight.
  \<open>Inl\<close> is the response of the \<open>catch\<close> block (status 500), \<open>Inr\<close> the \<open>data\<close> of
  the successful response. The expense tables are swept first, the income tables after
  them.
\<close>

definition processRecurringTransactions :: "date \<Rightarrow> world \<Rightarrow> (error + summary) \<times> world" where
  "processRecurringTransactions now w =
     (let today = startOfDay now in
      case sweep today (expenseTables w) of
        (Inl err, te) \<Rightarrow> (Inl err, putExpenseTables te w)
      | (Inr (nExpenses, dueExpenses), te) \<Rightarrow>
          (let w1 = putExpenseTables te w in
           case sweep today (incomeTables w1) of
             (Inl err, ti) \<Rightarrow> (Inl err, putIncomeTables ti w1)
           | (Inr (nIncomes, dueIncomes), ti) \<Rightarrow>
               (Inr \<lparr>expensesCreated = nExpenses, incomesCreated = nIncomes,
                     totalProcessed = dueExpenses + dueIncomes\<rparr>,
                putIncomeTables ti w1)))"

section \<open>The template handlers\<close>

text \<open>
  Each constructor of \<open>response\<close> is one of the \<open>res.status(...).json(...)\<close> sites of
  a handler; \<open>status\<close> is the HTTP status sent there. The messages of the expense and
  of the income handlers differ only in the noun.
\<close>

datatype response =
    Created
  | Updated
  | Deleted
  | MissingFields
  | BadFrequency
  | BadAmount
  | BadEndDate
  | NotFound
  | NotAuthorized
  | Failed

fun status :: "response \<Rightarrow> nat" where
  "status Created = 201"
| "status Updated = 200"
| "status Deleted = 200"
| "status MissingFields = 400"
| "status BadFrequency = 400"
| "status BadAmount = 400"
| "status BadEndDate = 400"
| "status NotFound = 404"
| "status NotAuthorized = 403"
| "status Failed = 500"

definition validFrequencies :: "string list" where
  "validFrequencies = [''daily'', ''weekly'', ''monthly'', ''yearly'']"

text \<open>A request body: a field that is absent is \<open>None\<close>.\<close>

record 'b createBody =
  amountField :: "rat option"
  detailFields :: 'b
  frequencyField :: "string option"
  startDateField :: "date option"
  endDateField :: "date option"

record expenseInput =
  descriptionField :: "string option"
  categoryField :: "string option"

record incomeInput =
  sourceField :: "string option"

text \<open>JavaScript truthiness of an optional string and of an optional number.\<close>

definition truthy :: "string option \<Rightarrow> bool" where
  "truthy s = (case s of None \<Rightarrow> False | Some v \<Rightarrow> v \<noteq> [])"

definition truthyNumber :: "rat option \<Rightarrow> bool" where
  "truthyNumber a = (case a of None \<Rightarrow> False | Some v \<Rightarrow> v \<noteq> 0)"

text \<open>
  The descriptive fields the body must carry: \<open>description\<close> and \<open>category\<close> for an
  expense (line 40), \<open>source\<close> for an income (line 245). \<open>None\<close> when one is missing.
\<close>

definition expenseDetails :: "expenseInput \<Rightarrow> expenseFields option" where
  "expenseDetails b =
     (if truthy (descriptionField b) \<and> truthy (categoryField b)
      then Some \<lparr>description = the (descriptionField b), category = the (categoryField b)\<rparr>
      else None)"

definition incomeDetails :: "incomeInput \<Rightarrow> incomeFields option" where
  "incomeDetails b =
     (if truthy (sourceField b) then Some \<lparr>source = the (sourceField b)\<rparr> else None)"

text \<open>
  \<open>createRecurringExpense\<close> (lines 35 to 98) and \<open>createRecurringIncome\<close> (lines 240
  to 302) are the same text but for the descriptive fields, passed here as \<open>parse\<close>.
  \<open>newId\<close> is the primary key the store gives the row; the insert fails on a key
  already in the table.
\<close>

definition createRecurring ::
  "('b \<Rightarrow> 'd option) \<Rightarrow> string \<Rightarrow> 'b createBody \<Rightarrow> string \<Rightarrow> 'd tables \<Rightarrow> response \<times> 'd tables" where
  "createRecurring parse uid body newId t =
     (if \<not> truthyNumber (amountField body) \<or> parse (detailFields body) = None
         \<or> \<not> truthy (frequencyField body) \<or> startDateField body = None
      then (MissingFields, t)
      else if the (frequencyField body) \<notin> set validFrequencies then (BadFrequency, t)
      else if the (amountField body) \<le> 0 then (BadAmount, t)
      else
        (let start = the (startDateField body);
             end = endDateField body
         in if (case end of None \<Rightarrow> False | Some e \<Rightarrow> date_le e start) then (BadEndDate, t)
            else
              (case attempt (faults t) of
                 (True, fs) \<Rightarrow> (Failed, t\<lparr>faults := fs\<rparr>)
               | (False, fs) \<Rightarrow>
                   (if newId \<in> set (map rid (templates t)) then (Failed, t\<lparr>faults := fs\<rparr>)
                    else (Created,
                          t\<lparr>templates := templates t @
                               [\<lparr>rid = newId, userId = uid, amount = the (amountField body),
                                 details = the (parse (detailFields body)),
                                 frequency = the (frequencyField body),
                                 startDate = start, nextDate = start, endDate = end,
                                 isActive = True\<rparr>],
                            faults := fs\<rparr>)))))"

definition createRecurringExpense ::
  "string \<Rightarrow> expenseInput createBody \<Rightarrow> string \<Rightarrow> world \<Rightarrow> response \<times> world" where
  "createRecurringExpense uid body newId w =
     (case createRecurring expenseDetails uid body newId (expenseTables w) of
        (r, t) \<Rightarrow> (r, putExpenseTables t w))"

definition createRecurringIncome ::
  "string \<Rightarrow> incomeInput createBody \<Rightarrow> string \<Rightarrow> world \<Rightarrow> response \<times> world" where
  "createRecurringIncome uid body newId w =
     (case createRecurring incomeDetails uid body newId (incomeTables w) of
        (r, t) \<Rightarrow> (r, putIncomeTables t w))"

text \<open>
  The body of an update: \<open>updates = req.body\<close> is handed to Prisma as it came, but for
  \<open>userId\<close>, \<open>startDate\<close> and \<open>createdAt\<close>, which lines 143 to 145 delete from it.
  Every other column the body names is written, \<open>nextDate\<close> included. \<open>endDate\<close> may be
  \<open>null\<close>, which clears the column.
\<close>

record 'u updateBody =
  newAmount :: "rat option"
  newDetails :: 'u
  newFrequency :: "string option"
  newUserId :: "string option"
  newStartDate :: "date option"
  newNextDate :: "date option"
  newEndDate :: "date option option"
  newIsActive :: "bool option"

definition orElse :: "'a option \<Rightarrow> 'a \<Rightarrow> 'a" where
  "orElse v old = (case v of None \<Rightarrow> old | Some x \<Rightarrow> x)"

definition applyUpdates :: "('u \<Rightarrow> 'd \<Rightarrow> 'd) \<Rightarrow> 'u updateBody \<Rightarrow> 'd recurring \<Rightarrow> 'd recurring" where
  "applyUpdates change updates r =
     r\<lparr>amount := orElse (newAmount updates) (amount r),
       details := change (newDetails updates) (details r),
       frequency := orElse (newFrequency updates) (frequency r),
       nextDate := orElse (newNextDate updates) (nextDate r),
       endDate := orElse (newEndDate updates) (endDate r),
       isActive := orElse (newIsActive updates) (isActive r)\<rparr>"

definition changeExpense :: "expenseInput \<Rightarrow> expenseFields \<Rightarrow> expenseFields" where
  "changeExpense u d =
     \<lparr>description = orElse (descriptionField u) (description d),
      category = orElse (categoryField u) (category d)\<rparr>"

definition changeIncome :: "incomeInput \<Rightarrow> incomeFields \<Rightarrow> incomeFields" where
  "changeIncome u d = \<lparr>source = orElse (sourceField u) (source d)\<rparr>"

text \<open>
  \<open>updateRecurringExpense\<close> (lines 101 to 168) and \<open>updateRecurringIncome\<close> (lines 305
  to 371): \<open>findUnique\<close>, the two guards on the row found, the validation of the fields
  present, then the write.
\<close>

definition updateRecurring ::
  "('u \<Rightarrow> 'd \<Rightarrow> 'd) \<Rightarrow> string \<Rightarrow> string \<Rightarrow> 'u updateBody \<Rightarrow> 'd tables \<Rightarrow> response \<times> 'd tables" where
  "updateRecurring change uid i updates t =
     (case attempt (faults t) of
        (True, fs) \<Rightarrow> (Failed, t\<lparr>faults := fs\<rparr>)
      | (False, fs) \<Rightarrow>
          (case find (\<lambda>r. rid r = i) (templates t) of
             None \<Rightarrow> (NotFound, t\<lparr>faults := fs\<rparr>)
           | Some existing \<Rightarrow>
               (if userId existing \<noteq> uid then (NotAuthorized, t\<lparr>faults := fs\<rparr>)
                else if truthy (newFrequency updates)
                        \<and> the (newFrequency updates) \<notin> set validFrequencies
                  then (BadFrequency, t\<lparr>faults := fs\<rparr>)
                else if (case newAmount updates of None \<Rightarrow> False | Some a \<Rightarrow> a \<le> 0)
                  then (BadAmount, t\<lparr>faults := fs\<rparr>)
                else
                  (case attempt fs of
                     (True, fs') \<Rightarrow> (Failed, t\<lparr>faults := fs'\<rparr>)
                   | (False, fs') \<Rightarrow>
                       (Updated,
                        t\<lparr>templates := map (\<lambda>r. if rid r = i then applyUpdates change updates r else r)
                                           (templates t),
                          faults := fs'\<rparr>)))))"

definition updateRecurringExpense ::
  "string \<Rightarrow> string \<Rightarrow> expenseInput updateBody \<Rightarrow> world \<Rightarrow> response \<times> world" where
  "updateRecurringExpense uid i updates w =
     (case updateRecurring changeExpense uid i updates (expenseTables w) of
        (r, t) \<Rightarrow> (r, putExpenseTables t w))"

definition updateRecurringIncome ::
  "string \<Rightarrow> string \<Rightarrow> incomeInput updateBody \<Rightarrow> world \<Rightarrow> response \<times> world" where
  "updateRecurringIncome uid i updates w =
     (case updateRecurring changeIncome uid i updates (incomeTables w) of
        (r, t) \<Rightarrow> (r, putIncomeTables t w))"

text \<open>
  \<open>deleteRecurringExpense\<close> (lines 171 to 209) and \<open>deleteRecurringIncome\<close> (lines 374
  to 412). The foreign key of the generated entries is \<open>ON DELETE SET NULL\<close>
  (\<open>create_tables.sql\<close>): the entries stay and lose their back-reference.
\<close>

definition deleteRecurring :: "string \<Rightarrow> string \<Rightarrow> 'd tables \<Rightarrow> response \<times> 'd tables" where
  "deleteRecurring uid i t =
     (case attempt (faults t) of
        (True, fs) \<Rightarrow> (Failed, t\<lparr>faults := fs\<rparr>)
      | (False, fs) \<Rightarrow>
          (case find (\<lambda>r. rid r = i) (templates t) of
             None \<Rightarrow> (NotFound, t\<lparr>faults := fs\<rparr>)
           | Some existing \<Rightarrow>
               (if userId existing \<noteq> uid then (NotAuthorized, t\<lparr>faults := fs\<rparr>)
                else
                  (case attempt fs of
                     (True, fs') \<Rightarrow> (Failed, t\<lparr>faults := fs'\<rparr>)
                   | (False, fs') \<Rightarrow>
                       (Deleted,
                        t\<lparr>templates := filter (\<lambda>r. rid r \<noteq> i) (templates t),
                          entries := map (\<lambda>e. if recurringId e = Some i then e\<lparr>recurringId := None\<rparr> else e)
                                         (entries t),
                          faults := fs'\<rparr>)))))"

definition deleteRecurringExpense :: "string \<Rightarrow> string \<Rightarrow> world \<Rightarrow> response \<times> world" where
  "deleteRecurringExpense uid i w =
     (case deleteRecurring uid i (expenseTables w) of (r, t) \<Rightarrow> (r, putExpenseTables t w))"

definition deleteRecurringIncome :: "string \<Rightarrow> string \<Rightarrow> world \<Rightarrow> response \<times> world" where
  "deleteRecurringIncome uid i w =
     (case deleteRecurring uid i (incomeTables w) of (r, t) \<Rightarrow> (r, putIncomeTables t w))"

section \<open>Properties of the recurrence calculator\<close>

text \<open>The calendar month that follows the month of \<open>d\<close>, and the year it lies in.\<close>

definition nextMonthYear :: "date \<Rightarrow> int" where
  "nextMonthYear d = (if month d = 11 then year d + 1 else year d)"

definition nextMonth :: "date \<Rightarrow> int" where
  "nextMonth d = (if month d = 11 then 0 else month d + 1)"

definition lastDayOfMonth :: "date \<Rightarrow> bool" where
  "lastDayOfMonth d = (day d = daysInMonth (year d) (month d))"

subsection \<open>Carrying days\<close>

lemma rollDay_in_range:
  "1 \<le> d \<Longrightarrow> d \<le> daysInMonth y m \<Longrightarrow> rollDay y m d = \<lparr>year = y, month = m, day = d, millis = 0\<rparr>"
  by (subst rollDay.simps) simp

lemma rollDay_carry:
  "1 \<le> d \<Longrightarrow> daysInMonth y m < d \<Longrightarrow>
   rollDay y m d = rollDay (if m = 11 then y + 1 else y) (if m = 11 then 0 else m + 1) (d - daysInMonth y m)"
  by (subst rollDay.simps) (simp add: Let_def)

lemma rollDay_borrow:
  "d < 1 \<Longrightarrow>
   rollDay y m d = rollDay (if m = 0 then y - 1 else y) (if m = 0 then 11 else m - 1)
      (d + daysInMonth (if m = 0 then y - 1 else y) (if m = 0 then 11 else m - 1))"
  by (subst rollDay.simps) (simp add: Let_def)

lemma rollDay_carry_once:
  assumes "1 \<le> d" "daysInMonth y m < d" "d \<le> daysInMonth y m + 28"
  shows "rollDay y m d = \<lparr>year = (if m = 11 then y + 1 else y), month = (if m = 11 then 0 else m + 1), day = d - daysInMonth y m, millis = 0\<rparr>"
proof -
  have "d - daysInMonth y m \<le> daysInMonth (if m = 11 then y + 1 else y) (if m = 11 then 0 else m + 1)"
    using assms(3) daysInMonth_lower [of "if m = 11 then y + 1 else y" "if m = 11 then 0 else m + 1"] by linarith
  moreover have "1 \<le> d - daysInMonth y m" using assms(2) by simp
  ultimately show ?thesis
    using assms by (simp add: rollDay_carry rollDay_in_range)
qed

lemma rollDay_zero:
  "rollDay y m 0 = \<lparr>year = (if m = 0 then y - 1 else y), month = (if m = 0 then 11 else m - 1),
      day = daysInMonth (if m = 0 then y - 1 else y) (if m = 0 then 11 else m - 1), millis = 0\<rparr>"
proof -
  have "1 \<le> daysInMonth (if m = 0 then y - 1 else y) (if m = 0 then 11 else m - 1)"
    using daysInMonth_lower [of "if m = 0 then y - 1 else y" "if m = 0 then 11 else m - 1"] by linarith
  then show ?thesis
    by (simp add: rollDay_borrow rollDay_in_range)
qed

lemma month_norm:
  "0 \<le> m \<Longrightarrow> m \<le> 11 \<Longrightarrow> (m::int) div 12 = 0 \<and> m mod 12 = m"
  by simp

lemma month_succ_norm:
  "0 \<le> m \<Longrightarrow> m \<le> 11 \<Longrightarrow>
   (m + 1) div 12 = (if m = 11 then 1 else (0::int)) \<and> (m + 1) mod 12 = (if m = 11 then 0 else m + 1)"
  by auto

lemma setDate_forward:
  assumes "valid_date d" "1 \<le> k" "k \<le> 28"
  shows "setDate d (day d + k) =
     (if day d + k \<le> daysInMonth (year d) (month d)
      then \<lparr>year = year d, month = month d, day = day d + k, millis = millis d\<rparr>
      else \<lparr>year = nextMonthYear d, month = nextMonth d, day = day d + k - daysInMonth (year d) (month d), millis = millis d\<rparr>)"
proof -
  have m: "month d div 12 = 0" "month d mod 12 = month d"
    using assms(1) by (simp_all add: valid_date_def)
  have d1: "1 \<le> day d + k" using assms by (simp add: valid_date_def)
  show ?thesis
  proof (cases "day d + k \<le> daysInMonth (year d) (month d)")
    case True
    then show ?thesis using d1 by (simp add: setDate_def makeDay_def makeDate_def m rollDay_in_range)
  next
    case False
    have "day d + k \<le> daysInMonth (year d) (month d) + 28"
      using assms by (simp add: valid_date_def)
    with False d1 show ?thesis
      by (simp add: setDate_def makeDay_def makeDate_def m rollDay_carry_once nextMonthYear_def nextMonth_def)
  qed
qed

lemma calc_daily:
  "valid_date d \<Longrightarrow> calculateNextDate d ''daily'' = Inr
     (if day d + 1 \<le> daysInMonth (year d) (month d)
      then \<lparr>year = year d, month = month d, day = day d + 1, millis = millis d\<rparr>
      else \<lparr>year = nextMonthYear d, month = nextMonth d, day = day d + 1 - daysInMonth (year d) (month d), millis = millis d\<rparr>)"
  by (simp add: calculateNextDate_def getDate_def setDate_forward)

lemma calc_weekly:
  "valid_date d \<Longrightarrow> calculateNextDate d ''weekly'' = Inr
     (if day d + 7 \<le> daysInMonth (year d) (month d)
      then \<lparr>year = year d, month = month d, day = day d + 7, millis = millis d\<rparr>
      else \<lparr>year = nextMonthYear d, month = nextMonth d, day = day d + 7 - daysInMonth (year d) (month d), millis = millis d\<rparr>)"
  by (simp add: calculateNextDate_def getDate_def setDate_forward)

lemma calc_monthly:
  assumes "valid_date d"
  shows "calculateNextDate d ''monthly'' = Inr
     \<lparr>year = nextMonthYear d, month = nextMonth d,
      day = min (day d) (daysInMonth (nextMonthYear d) (nextMonth d)), millis = millis d\<rparr>"
proof -
  have m: "0 \<le> month d" "month d \<le> 11" and dd: "1 \<le> day d" "day d \<le> daysInMonth (year d) (month d)"
    using assms by (simp_all add: valid_date_def)
  have sm: "setMonth d (month d + 1) = makeDate (rollDay (nextMonthYear d) (nextMonth d) (day d)) (millis d)"
    using m by (auto simp add: setMonth_def makeDay_def nextMonthYear_def nextMonth_def)
  have nm: "0 \<le> nextMonth d" "nextMonth d \<le> 11"
    using m by (simp_all add: nextMonth_def)
  show ?thesis
  proof (cases "day d \<le> daysInMonth (nextMonthYear d) (nextMonth d)")
    case True
    then show ?thesis using dd
      by (simp add: calculateNextDate_def getDate_def getMonth_def sm makeDate_def rollDay_in_range)
  next
    case False
    have le: "day d \<le> daysInMonth (nextMonthYear d) (nextMonth d) + 28"
      using dd daysInMonth_upper [of "year d" "month d"] daysInMonth_lower [of "nextMonthYear d" "nextMonth d"]
      by linarith
    have ne11: "nextMonth d \<noteq> 11"
      using False dd daysInMonth_upper [of "year d" "month d"] by (auto simp add: daysInMonth_def)
    let ?c = "makeDate (rollDay (nextMonthYear d) (nextMonth d) (day d)) (millis d)"
    have c: "?c = \<lparr>year = nextMonthYear d, month = nextMonth d + 1,
         day = day d - daysInMonth (nextMonthYear d) (nextMonth d), millis = millis d\<rparr>"
      using False le dd ne11 by (simp add: rollDay_carry_once makeDate_def)
    have pos: "0 < daysInMonth (nextMonthYear d) (nextMonth d)"
      using daysInMonth_lower [of "nextMonthYear d" "nextMonth d"] by linarith
    have undo: "setDate ?c 0 = \<lparr>year = nextMonthYear d, month = nextMonth d,
         day = daysInMonth (nextMonthYear d) (nextMonth d), millis = millis d\<rparr>"
      unfolding c using nm ne11 by (auto simp add: setDate_def makeDay_def makeDate_def rollDay_zero)
    show ?thesis
      using False pos undo by (simp add: calculateNextDate_def getDate_def getMonth_def sm c)
  qed
qed

subsection \<open>The four frequencies\<close>

lemma calc_yearly_unfold:
  "calculateNextDate d ''yearly'' =
     (let nx = setFullYear d (year d + 1)
      in if month nx = 2 \<and> day nx = 29
         then (if \<not> isLeapYear (year nx) then Inr (setDate nx 28) else Inr nx)
         else Inr nx)"
  by (simp add: calculateNextDate_def Let_def getFullYear_def getMonth_def getDate_def isLeapYear_def)

lemma setDate_mar28:
  "setDate \<lparr>year = y, month = 2, day = k, millis = tm\<rparr> 28 = \<lparr>year = y, month = 2, day = 28, millis = tm\<rparr>"
  by (simp add: setDate_def makeDay_def makeDate_def rollDay_in_range daysInMonth_def)

lemma calc_yearly:
  assumes "valid_date d"
  shows "calculateNextDate d ''yearly'' = Inr
     (if day d \<le> daysInMonth (year d + 1) (month d)
      then (if month d = 2 \<and> day d = 29 \<and> \<not> isLeapYear (year d + 1)
            then \<lparr>year = year d + 1, month = 2, day = 28, millis = millis d\<rparr>
            else \<lparr>year = year d + 1, month = month d, day = day d, millis = millis d\<rparr>)
      else \<lparr>year = year d + 1, month = month d + 1, day = day d - daysInMonth (year d + 1) (month d), millis = millis d\<rparr>)"
proof -
  have m: "month d div 12 = 0" "month d mod 12 = month d"
    and dd: "1 \<le> day d" "day d \<le> daysInMonth (year d) (month d)"
    using assms by (simp_all add: valid_date_def)
  have sy: "setFullYear d (year d + 1) = makeDate (rollDay (year d + 1) (month d) (day d)) (millis d)"
    by (simp add: setFullYear_def makeDay_def m)
  show ?thesis
  proof (cases "day d \<le> daysInMonth (year d + 1) (month d)")
    case True
    have nx: "setFullYear d (year d + 1) = \<lparr>year = year d + 1, month = month d, day = day d, millis = millis d\<rparr>"
      using True dd by (simp add: sy makeDate_def rollDay_in_range)
    show ?thesis
      unfolding calc_yearly_unfold nx using True
      by (simp add: Let_def setDate_mar28)
  next
    case False
    have ne11: "month d \<noteq> 11"
      using False dd by (auto simp add: daysInMonth_def split: if_splits)
    have le: "day d \<le> daysInMonth (year d + 1) (month d) + 28"
      using dd daysInMonth_upper [of "year d" "month d"] daysInMonth_lower [of "year d + 1" "month d"]
      by linarith
    have nx: "setFullYear d (year d + 1)
        = \<lparr>year = year d + 1, month = month d + 1, day = day d - daysInMonth (year d + 1) (month d), millis = millis d\<rparr>"
      using False le dd ne11 by (simp add: sy makeDate_def rollDay_carry_once)
    have "day d - daysInMonth (year d + 1) (month d) \<noteq> 29"
      using dd daysInMonth_upper [of "year d" "month d"] daysInMonth_lower [of "year d + 1" "month d"]
      by linarith
    then show ?thesis
      unfolding calc_yearly_unfold nx using False
      by (simp add: Let_def)
  qed
qed

lemma calc_invalid:
  "f \<notin> set validFrequencies \<Longrightarrow> calculateNextDate d f = Inl (InvalidFrequency f)"
  by (simp add: validFrequencies_def calculateNextDate_def)

lemma calc_Inr_valid:
  "calculateNextDate d f = Inr n \<Longrightarrow> f \<in> set validFrequencies"
  by (auto simp add: validFrequencies_def calculateNextDate_def Let_def split: if_splits)

lemma valid_next_month:
  "valid_date d \<Longrightarrow> 0 \<le> nextMonth d \<and> nextMonth d \<le> 11"
  by (simp add: valid_date_def nextMonth_def)

lemma later_next_month:
  "valid_date d \<Longrightarrow> date_lt d \<lparr>year = nextMonthYear d, month = nextMonth d, day = k, millis = millis d\<rparr>"
  by (auto simp add: valid_date_def date_lt_def nextMonthYear_def nextMonth_def)

lemma calc_forward_later:
  assumes "valid_date d" "1 \<le> k" "k \<le> 28"
  shows "date_lt d (setDate d (day d + k)) \<and> valid_date (setDate d (day d + k))"
proof (cases "day d + k \<le> daysInMonth (year d) (month d)")
  case True
  then show ?thesis using assms
    by (simp add: setDate_forward date_lt_def valid_date_def)
next
  case False
  have "day d + k - daysInMonth (year d) (month d) \<le> daysInMonth (nextMonthYear d) (nextMonth d)"
    using assms daysInMonth_lower [of "nextMonthYear d" "nextMonth d"] by (simp add: valid_date_def)
  then show ?thesis using False assms valid_next_month [of d] later_next_month [of d]
    by (simp add: setDate_forward valid_date_def)
qed

lemma calc_later:
  assumes "valid_date d" "calculateNextDate d f = Inr n"
  shows "date_lt d n \<and> valid_date n"
proof -
  have "f \<in> set validFrequencies" using assms(2) by (rule calc_Inr_valid)
  then consider "f = ''daily''" | "f = ''weekly''" | "f = ''monthly''" | "f = ''yearly''"
    by (auto simp add: validFrequencies_def)
  then show ?thesis
  proof cases
    case 1
    have "n = setDate d (day d + 1)" using assms(2) 1 by (simp add: calculateNextDate_def getDate_def)
    then show ?thesis using calc_forward_later [OF assms(1), of 1] by simp
  next
    case 2
    have "n = setDate d (day d + 7)" using assms(2) 2 by (simp add: calculateNextDate_def getDate_def)
    then show ?thesis using calc_forward_later [OF assms(1), of 7] by simp
  next
    case 3
    have n: "n = \<lparr>year = nextMonthYear d, month = nextMonth d,
        day = min (day d) (daysInMonth (nextMonthYear d) (nextMonth d)), millis = millis d\<rparr>"
      using assms 3 by (simp add: calc_monthly)
    have "1 \<le> min (day d) (daysInMonth (nextMonthYear d) (nextMonth d))"
      using assms(1) daysInMonth_lower [of "nextMonthYear d" "nextMonth d"] by (simp add: valid_date_def)
    then show ?thesis using n assms(1) valid_next_month [OF assms(1)] later_next_month [OF assms(1)]
      by (simp add: valid_date_def)
  next
    case 4
    have n: "n = (if day d \<le> daysInMonth (year d + 1) (month d)
      then (if month d = 2 \<and> day d = 29 \<and> \<not> isLeapYear (year d + 1)
            then \<lparr>year = year d + 1, month = 2, day = 28, millis = millis d\<rparr>
            else \<lparr>year = year d + 1, month = month d, day = day d, millis = millis d\<rparr>)
      else \<lparr>year = year d + 1, month = month d + 1, day = day d - daysInMonth (year d + 1) (month d), millis = millis d\<rparr>)"
      using assms 4 by (simp add: calc_yearly)
    have lt: "date_lt d n" using n by (simp add: date_lt_def)
    have "valid_date n"
    proof (cases "day d \<le> daysInMonth (year d + 1) (month d)")
      case True
      then show ?thesis using n assms(1) by (auto simp add: valid_date_def daysInMonth_def)
    next
      case False
      have "month d = 1" using False assms(1) by (auto simp add: valid_date_def daysInMonth_def split: if_splits)
      then show ?thesis using n False assms(1)
        by (auto simp add: valid_date_def daysInMonth_def split: if_splits)
    qed
    with lt show ?thesis by simp
  qed
qed

lemma leap_div4: "isLeapYear y \<Longrightarrow> y mod 4 = 0"
proof -
  assume "isLeapYear y"
  then consider "y mod 4 = 0" | "y mod 400 = 0" by (auto simp add: isLeapYear_def)
  then show ?thesis
  proof cases
    case 1 then show ?thesis .
  next
    case 2
    have "y mod 400 mod 4 = y mod 4" by (rule mod_mod_cancel) simp
    with 2 show ?thesis by simp
  qed
qed

lemma leap_succ: "isLeapYear y \<Longrightarrow> \<not> isLeapYear (y + 1)"
proof -
  assume "isLeapYear y"
  then have a: "y mod 4 = 0" by (rule leap_div4)
  have "(y + 1) mod 4 = (y mod 4 + 1) mod 4" by (simp add: mod_add_left_eq)
  with a have b: "(y + 1) mod 4 = 1" by simp
  have "isLeapYear (y + 1) \<Longrightarrow> (y + 1) mod 4 = 0" by (rule leap_div4)
  with b show ?thesis by auto
qed

text \<open>The year after a leap year is never a leap year, so Feb 29 always overflows.\<close>

lemma yearly_from_leap_day:
  assumes "isLeapYear y"
  shows "calculateNextDate \<lparr>year = y, month = 1, day = 29, millis = 0\<rparr> ''yearly''
     = Inr \<lparr>year = y + 1, month = 2, day = 1, millis = 0\<rparr>"
proof -
  have nl: "\<not> isLeapYear (y + 1)" using assms by (rule leap_succ)
  have v: "valid_date \<lparr>year = y, month = 1, day = 29, millis = 0\<rparr>"
    using assms by (simp add: valid_date_def daysInMonth_def)
  show ?thesis using nl by (simp add: calc_yearly [OF v] daysInMonth_def)
qed

section \<open>Claims about the recurrence calculator\<close>

text \<open>
  C1. The claim: from Feb 29 of a leap year the yearly step gives Feb 28 of the
  following year when that year is not a leap year. The code does not: \<open>setFullYear\<close>
  on Feb 29 2024 overflows to Mar 1 2025, and the special case of line 436 tests
  \<open>getMonth() === 2\<close>, which is March, so it never sees a February date. Evaluated on
  Feb 29 2024 the function returns Mar 1 2025.
\<close>

theorem yearly_feb29_lands_on_mar1:
  "calculateNextDate \<lparr>year = 2024, month = 1, day = 29, millis = 0\<rparr> ''yearly''
     = Inr \<lparr>year = 2025, month = 2, day = 1, millis = 0\<rparr>
   \<and> isLeapYear 2024 \<and> \<not> isLeapYear 2025"
proof -
  have v: "valid_date \<lparr>year = 2024, month = 1, day = 29, millis = 0\<rparr>"
    by (simp add: valid_date_def daysInMonth_def isLeapYear_def)
  show ?thesis
    by (simp add: calc_yearly [OF v] daysInMonth_def isLeapYear_def)
qed

text \<open>
  C4. For every valid date the monthly step lands in the next calendar month, on the
  same day of the month when that month has it and on the last day of that month
  otherwise. It is calendar-month advancement: Jan 31 2025 goes to Feb 28 2025, where
  adding 30 days would give Mar 2 2025.
\<close>

theorem monthly_same_day_or_clamped:
  assumes "valid_date d"
  shows "calculateNextDate d ''monthly'' = Inr
     \<lparr>year = nextMonthYear d, month = nextMonth d,
      day = (if day d \<le> daysInMonth (nextMonthYear d) (nextMonth d) then day d
             else daysInMonth (nextMonthYear d) (nextMonth d)), millis = millis d\<rparr>"
  using assms by (simp add: calc_monthly min_def)

theorem monthly_same_day_or_clamped_witness:
  "valid_date \<lparr>year = 2025, month = 0, day = 31, millis = 0\<rparr>
   \<and> calculateNextDate \<lparr>year = 2025, month = 0, day = 31, millis = 0\<rparr> ''monthly''
       = Inr \<lparr>year = 2025, month = 1, day = 28, millis = 0\<rparr>
   \<and> setDate \<lparr>year = 2025, month = 0, day = 31, millis = 0\<rparr> (31 + 30) = \<lparr>year = 2025, month = 2, day = 2, millis = 0\<rparr>"
proof -
  have v: "valid_date \<lparr>year = 2025, month = 0, day = 31, millis = 0\<rparr>"
    by (simp add: valid_date_def daysInMonth_def)
  have far: "setDate \<lparr>year = 2025, month = 0, day = 31, millis = 0\<rparr> (31 + 30) = \<lparr>year = 2025, month = 2, day = 2, millis = 0\<rparr>"
    by (simp add: setDate_def makeDay_def makeDate_def rollDay_carry rollDay_in_range daysInMonth_def isLeapYear_def)
  show ?thesis
    using v far monthly_same_day_or_clamped [OF v]
    by (simp add: nextMonthYear_def nextMonth_def daysInMonth_def isLeapYear_def)
qed

text \<open>
  C9. The claim: the monthly step maps the last day of a month to the last day of the
  following month. It fails where the following month is longer: Apr 30 2025 goes to
  May 30 2025, and May has 31 days.
\<close>

theorem monthly_last_day_counterexample:
  "valid_date \<lparr>year = 2025, month = 3, day = 30, millis = 0\<rparr>
   \<and> lastDayOfMonth \<lparr>year = 2025, month = 3, day = 30, millis = 0\<rparr>
   \<and> calculateNextDate \<lparr>year = 2025, month = 3, day = 30, millis = 0\<rparr> ''monthly''
       = Inr \<lparr>year = 2025, month = 4, day = 30, millis = 0\<rparr>
   \<and> \<not> lastDayOfMonth \<lparr>year = 2025, month = 4, day = 30, millis = 0\<rparr>"
proof -
  have v: "valid_date \<lparr>year = 2025, month = 3, day = 30, millis = 0\<rparr>"
    by (simp add: valid_date_def daysInMonth_def)
  show ?thesis
    using v by (simp add: calc_monthly [OF v] nextMonthYear_def nextMonth_def daysInMonth_def lastDayOfMonth_def)
qed

text \<open>
  C9, as amended. From the last day of a month the monthly step gives the last day of
  the following month when that month is not longer than the month of \<open>d\<close>, and the
  same day number in the following month otherwise.
\<close>

theorem monthly_last_day:
  assumes "valid_date d" "lastDayOfMonth d"
  shows "calculateNextDate d ''monthly'' = Inr
     (if daysInMonth (nextMonthYear d) (nextMonth d) \<le> daysInMonth (year d) (month d)
      then \<lparr>year = nextMonthYear d, month = nextMonth d, day = daysInMonth (nextMonthYear d) (nextMonth d), millis = millis d\<rparr>
      else \<lparr>year = nextMonthYear d, month = nextMonth d, day = day d, millis = millis d\<rparr>)"
  using assms by (simp add: calc_monthly lastDayOfMonth_def min_def)

theorem monthly_last_day_witness:
  "valid_date \<lparr>year = 2024, month = 0, day = 31, millis = 0\<rparr>
   \<and> lastDayOfMonth \<lparr>year = 2024, month = 0, day = 31, millis = 0\<rparr>
   \<and> calculateNextDate \<lparr>year = 2024, month = 0, day = 31, millis = 0\<rparr> ''monthly''
       = Inr \<lparr>year = 2024, month = 1, day = 29, millis = 0\<rparr>
   \<and> lastDayOfMonth \<lparr>year = 2024, month = 1, day = 29, millis = 0\<rparr>"
proof -
  have v: "valid_date \<lparr>year = 2024, month = 0, day = 31, millis = 0\<rparr>"
    by (simp add: valid_date_def daysInMonth_def)
  have l: "lastDayOfMonth \<lparr>year = 2024, month = 0, day = 31, millis = 0\<rparr>"
    by (simp add: lastDayOfMonth_def daysInMonth_def)
  show ?thesis
    using v l monthly_last_day [OF v l]
    by (simp add: nextMonthYear_def nextMonth_def daysInMonth_def isLeapYear_def lastDayOfMonth_def)
qed

section \<open>Properties of the batch processor\<close>

text \<open>The body of the loop for one row: the error, or the number of entries it created.\<close>

definition processOne :: "date \<Rightarrow> 'd recurring \<Rightarrow> 'd tables \<Rightarrow> (error + nat) \<times> 'd tables" where
  "processOne today recurring t =
     (if expired today recurring then
        (case updateTemplate (rid recurring) (\<lambda>r. r\<lparr>isActive := False\<rparr>) t of
           (Inl err, t1) \<Rightarrow> (Inl err, t1)
         | (Inr u, t1) \<Rightarrow> (Inr 0, t1))
      else
        (case createEntry (entryOf recurring) t of
           (Inl err, t1) \<Rightarrow> (Inl err, t1)
         | (Inr u, t1) \<Rightarrow>
             (case calculateNextDate (nextDate recurring) (frequency recurring) of
                Inl err \<Rightarrow> (Inl err, t1)
              | Inr nd \<Rightarrow>
                  (case updateTemplate (rid recurring)
                          (\<lambda>r. r\<lparr>nextDate := nd, isActive := \<not> shouldDeactivate recurring nd\<rparr>) t1 of
                     (Inl err, t2) \<Rightarrow> (Inl err, t2)
                   | (Inr u, t2) \<Rightarrow> (Inr 1, t2)))))"

text \<open>
  The row a successful pass of the loop body leaves for the template \<open>r\<close>: switched off
  when it has expired, otherwise moved to the next date and switched off when that date
  lies after the end date.
\<close>

definition advanced :: "date \<Rightarrow> 'd recurring \<Rightarrow> 'd recurring" where
  "advanced today r =
     (if expired today r then r\<lparr>isActive := False\<rparr>
      else (case calculateNextDate (nextDate r) (frequency r) of
              Inl err \<Rightarrow> r
            | Inr nd \<Rightarrow> r\<lparr>nextDate := nd, isActive := \<not> shouldDeactivate r nd\<rparr>))"

text \<open>The table after the rows \<open>done\<close> have been passed.\<close>

definition advanceAll :: "date \<Rightarrow> 'd recurring list \<Rightarrow> 'd recurring \<Rightarrow> 'd recurring" where
  "advanceAll today done x = (if x \<in> set done then advanced today x else x)"

text \<open>The entries generated for the rows \<open>rs\<close>: one for each row that has not expired.\<close>

definition generatedFor :: "date \<Rightarrow> 'd recurring list \<Rightarrow> 'd entry list" where
  "generatedFor today rs = map entryOf (filter (\<lambda>r. \<not> expired today r) rs)"

text \<open>
  The primary key is unique, and the rows still to be passed are rows of the table as
  it stands.
\<close>

definition batchInv :: "'d recurring list \<Rightarrow> 'd tables \<Rightarrow> bool" where
  "batchInv due t = (distinct (map rid (templates t)) \<and> distinct (map rid due) \<and> set due \<subseteq> set (templates t))"

text \<open>The rows \<open>findMany\<close> selects.\<close>

definition dueIn :: "date \<Rightarrow> 'd recurring list \<Rightarrow> 'd recurring list" where
  "dueIn today rows = filter (isDue today) rows"

text \<open>
  The tables after a sweep that came through \<open>k\<close> due rows and created the entries of
  the first \<open>j\<close>: \<open>j = k\<close>, or \<open>j = k + 1\<close> when the sweep stopped between the entry
  and the update of row \<open>k\<close>.
\<close>

definition sweptTo ::
  "date \<Rightarrow> 'd recurring list \<Rightarrow> 'd entry list \<Rightarrow> 'd recurring list \<Rightarrow> 'd entry list \<Rightarrow> nat \<Rightarrow> nat \<Rightarrow> bool" where
  "sweptTo today rows ents rows' ents' k j =
     (k \<le> j \<and> j \<le> Suc k \<and> j \<le> length (dueIn today rows)
      \<and> rows' = map (advanceAll today (take k (dueIn today rows))) rows
      \<and> ents' = ents @ generatedFor today (take j (dueIn today rows)))"

lemma processDue_Cons:
  "processDue today (r # rest) n t =
     (case processOne today r t of
        (Inl err, t1) \<Rightarrow> (Inl err, t1)
      | (Inr k, t1) \<Rightarrow> processDue today rest (n + k) t1)"
  by (simp add: processOne_def split: prod.splits sum.splits)

lemma processDue_append:
  "processDue today (xs @ ys) n t =
     (case processDue today xs n t of
        (Inl err, t1) \<Rightarrow> (Inl err, t1)
      | (Inr m, t1) \<Rightarrow> processDue today ys m t1)"
proof (induction xs arbitrary: n t)
  case Nil
  show ?case by simp
next
  case (Cons x xs)
  show ?case
    by (simp only: append_Cons processDue_Cons Cons.IH split: prod.splits sum.splits) auto
qed

subsection \<open>The store calls\<close>

lemma updateTemplate_cases:
  assumes "updateTemplate i f t = (res, t')"
  shows "entries t' = entries t"
    and "res = Inr () \<Longrightarrow> templates t' = map (\<lambda>r. if rid r = i then f r else r) (templates t)"
    and "res \<noteq> Inr () \<Longrightarrow> templates t' = templates t"
    and "faults t' = snd (attempt (faults t))"
  using assms
  by (auto simp add: updateTemplate_def split: prod.splits bool.splits if_splits)

lemma updateTemplate_ok:
  "faults t = [] \<Longrightarrow> i \<in> set (map rid (templates t)) \<Longrightarrow>
   updateTemplate i f t = (Inr (), t\<lparr>templates := map (\<lambda>r. if rid r = i then f r else r) (templates t), faults := []\<rparr>)"
  by (simp add: updateTemplate_def attempt_def)

lemma createEntry_cases:
  assumes "createEntry e t = (res, t')"
  shows "templates t' = templates t"
    and "res = Inr () \<Longrightarrow> entries t' = entries t @ [e]"
    and "res \<noteq> Inr () \<Longrightarrow> entries t' = entries t"
    and "faults t' = snd (attempt (faults t))"
  using assms
  by (auto simp add: createEntry_def split: prod.splits bool.splits if_splits)

lemma createEntry_ok:
  "faults t = [] \<Longrightarrow> createEntry e t = (Inr (), t\<lparr>entries := entries t @ [e], faults := []\<rparr>)"
  by (simp add: createEntry_def attempt_def)

lemma rid_advanced [simp]: "rid (advanced today r) = rid r"
  by (simp add: advanced_def split: sum.splits)

lemma row_by_id:
  assumes "distinct (map rid xs)" "r \<in> set xs" "x \<in> set xs" "rid x = rid r"
  shows "x = r"
  using assms by (meson distinct_map inj_onD)

lemma update_row_by_id:
  assumes "distinct (map rid xs)" "r \<in> set xs"
  shows "map (\<lambda>x. if rid x = rid r then f x else x) xs = map (\<lambda>x. if x = r then f r else x) xs"
proof (rule map_cong [OF refl])
  fix x assume "x \<in> set xs"
  then show "(if rid x = rid r then f x else x) = (if x = r then f r else x)"
    using row_by_id [OF assms(1) assms(2)] by auto
qed

subsection \<open>One pass of the loop body\<close>

lemma processOne_result:
  assumes "distinct (map rid (templates t))" "r \<in> set (templates t)"
      and "processOne today r t = (res, t')"
  shows "(\<exists>k. res = Inr k \<and> k = length (generatedFor today [r])
            \<and> templates t' = map (\<lambda>x. if x = r then advanced today r else x) (templates t)
            \<and> entries t' = entries t @ generatedFor today [r])
       \<or> (\<exists>err. res = Inl err \<and> templates t' = templates t
            \<and> (entries t' = entries t \<or> entries t' = entries t @ generatedFor today [r]))"
proof (cases "expired today r")
  case True
  obtain ru tu where u: "updateTemplate (rid r) (\<lambda>r. r\<lparr>isActive := False\<rparr>) t = (ru, tu)"
    by (cases "updateTemplate (rid r) (\<lambda>r. r\<lparr>isActive := False\<rparr>) t")
  note uc = updateTemplate_cases [OF u]
  show ?thesis
  proof (cases ru)
    case (Inl err)
    then show ?thesis using assms(3) True u uc
      by (auto simp add: processOne_def generatedFor_def)
  next
    case (Inr v)
    then have "templates tu = map (\<lambda>x. if x = r then advanced today r else x) (templates t)"
      using uc(2) True update_row_by_id [OF assms(1) assms(2)] by (simp add: advanced_def)
    then show ?thesis using assms(3) True u uc Inr
      by (auto simp add: processOne_def generatedFor_def)
  qed
next
  case False
  obtain rc tc where c: "createEntry (entryOf r) t = (rc, tc)"
    by (cases "createEntry (entryOf r) t")
  note cc = createEntry_cases [OF c]
  show ?thesis
  proof (cases rc)
    case (Inl err)
    then show ?thesis using assms(3) False c cc
      by (auto simp add: processOne_def generatedFor_def)
  next
    case created: (Inr v)
    show ?thesis
    proof (cases "calculateNextDate (nextDate r) (frequency r)")
      case (Inl err)
      then show ?thesis using assms(3) False c cc created
        by (auto simp add: processOne_def generatedFor_def)
    next
      case nxt: (Inr nd)
      obtain ru tu where u: "updateTemplate (rid r)
          (\<lambda>x. x\<lparr>nextDate := nd, isActive := \<not> shouldDeactivate r nd\<rparr>) tc = (ru, tu)"
        by (cases "updateTemplate (rid r) (\<lambda>x. x\<lparr>nextDate := nd, isActive := \<not> shouldDeactivate r nd\<rparr>) tc")
      note uc = updateTemplate_cases [OF u]
      show ?thesis
      proof (cases ru)
        case (Inl err)
        then show ?thesis using assms(3) False c cc created nxt u uc
          by (auto simp add: processOne_def generatedFor_def)
      next
        case (Inr v')
        then have "templates tu = map (\<lambda>x. if x = r then advanced today r else x) (templates t)"
          using uc(2) cc(1) False nxt update_row_by_id [OF assms(1) assms(2)]
          by (simp add: advanced_def)
        then show ?thesis using assms(3) False c cc created nxt u uc Inr
          by (auto simp add: processOne_def generatedFor_def)
      qed
    qed
  qed
qed

lemma generatedFor_Cons:
  "generatedFor today (r # rs) = generatedFor today [r] @ generatedFor today rs"
  by (simp add: generatedFor_def)

lemma advanceAll_Nil [simp]: "advanceAll today [] x = x"
  by (simp add: advanceAll_def)

lemma map_advanceAll_Nil [simp]: "map (advanceAll today []) xs = xs"
  by (induction xs) simp_all

lemma batchInv_step:
  assumes "batchInv (r # rest) t"
      and "templates t1 = map (\<lambda>x. if x = r then advanced today r else x) (templates t)"
  shows "batchInv rest t1"
proof -
  have d: "distinct (map rid (templates t))" and dd: "distinct (map rid (r # rest))"
    and sub: "set (r # rest) \<subseteq> set (templates t)"
    using assms(1) by (simp_all add: batchInv_def)
  have ids: "map rid (templates t1) = map rid (templates t)"
    by (simp add: assms(2) comp_def if_distrib [of rid] cong: if_cong)
  have "x \<in> set (templates t1)" if "x \<in> set rest" for x
  proof -
    have "x \<noteq> r" using that dd by auto
    moreover have "x \<in> set (templates t)" using that sub by auto
    ultimately show ?thesis unfolding assms(2) by force
  qed
  then show ?thesis using d dd ids by (auto simp add: batchInv_def)
qed

lemma advance_compose:
  assumes "distinct (map rid (r # rest))"
  shows "map (advanceAll today (take k rest)) (map (\<lambda>x. if x = r then advanced today r else x) xs)
       = map (advanceAll today (take (Suc k) (r # rest))) xs"
proof -
  have "advanced today r \<notin> set (take k rest)"
  proof
    assume "advanced today r \<in> set (take k rest)"
    then have "advanced today r \<in> set rest" by (rule in_set_takeD)
    then have "rid (advanced today r) \<in> rid ` set rest" by (rule imageI)
    then show False using assms by simp
  qed
  then have "advanceAll today (take k rest) (if x = r then advanced today r else x)
      = advanceAll today (take (Suc k) (r # rest)) x" for x
    by (simp add: advanceAll_def)
  then show ?thesis by simp
qed

lemma processDue_result:
  assumes "batchInv due t" "processDue today due n t = (res, t')"
  shows "\<exists>k j. k \<le> j \<and> j \<le> Suc k \<and> j \<le> length due
       \<and> templates t' = map (advanceAll today (take k due)) (templates t)
       \<and> entries t' = entries t @ generatedFor today (take j due)
       \<and> (case res of Inr m \<Rightarrow> k = length due \<and> j = length due \<and> m = n + length (generatedFor today due)
           | Inl err \<Rightarrow> k < length due)"
  using assms
proof (induction due arbitrary: n t)
  case Nil
  then have "res = Inr n" "t' = t" by simp_all
  then show ?case by (simp add: generatedFor_def)
next
  case (Cons r rest)
  have d: "distinct (map rid (templates t))" and rin: "r \<in> set (templates t)"
    and dd: "distinct (map rid (r # rest))"
    using Cons.prems(1) by (simp_all add: batchInv_def)
  obtain r1 t1 where one: "processOne today r t = (r1, t1)"
    by (cases "processOne today r t")
  have step: "(case processOne today r t of
        (Inl err, t1) \<Rightarrow> (Inl err, t1)
      | (Inr k, t1) \<Rightarrow> processDue today rest (n + k) t1) = (res, t')"
    using Cons.prems(2) by (simp only: processDue_Cons)
  from processOne_result [OF d rin one]
  consider (ok) k1 where "r1 = Inr k1" "k1 = length (generatedFor today [r])"
      "templates t1 = map (\<lambda>x. if x = r then advanced today r else x) (templates t)"
      "entries t1 = entries t @ generatedFor today [r]"
    | (err) e where "r1 = Inl e" "templates t1 = templates t"
      "entries t1 = entries t \<or> entries t1 = entries t @ generatedFor today [r]"
    by blast
  then show ?case
  proof cases
    case err
    have res: "res = Inl e" "t' = t1"
      using step one err(1) by simp_all
    from err(3) show ?thesis
    proof
      assume "entries t1 = entries t"
      then have "0 \<le> (0::nat) \<and> (0::nat) \<le> Suc 0 \<and> 0 \<le> length (r # rest)
          \<and> templates t' = map (advanceAll today (take 0 (r # rest))) (templates t)
          \<and> entries t' = entries t @ generatedFor today (take 0 (r # rest))
          \<and> (case res of Inr m \<Rightarrow> 0 = length (r # rest) \<and> 0 = length (r # rest)
                \<and> m = n + length (generatedFor today (r # rest))
              | Inl err \<Rightarrow> 0 < length (r # rest))"
        using res err(2) by (simp add: generatedFor_def)
      then show ?thesis by blast
    next
      assume "entries t1 = entries t @ generatedFor today [r]"
      then have "0 \<le> Suc 0 \<and> Suc 0 \<le> Suc 0 \<and> Suc 0 \<le> length (r # rest)
          \<and> templates t' = map (advanceAll today (take 0 (r # rest))) (templates t)
          \<and> entries t' = entries t @ generatedFor today (take (Suc 0) (r # rest))
          \<and> (case res of Inr m \<Rightarrow> 0 = length (r # rest) \<and> Suc 0 = length (r # rest)
                \<and> m = n + length (generatedFor today (r # rest))
              | Inl err \<Rightarrow> 0 < length (r # rest))"
        using res err(2) by simp
      then show ?thesis by blast
    qed
  next
    case ok
    have rest: "processDue today rest (n + k1) t1 = (res, t')"
      using step one ok(1) by simp
    have inv: "batchInv rest t1"
      using Cons.prems(1) ok(3) by (rule batchInv_step)
    from Cons.IH [OF inv rest] obtain k j where
      kj: "k \<le> j" "j \<le> Suc k" "j \<le> length rest"
      and tm: "templates t' = map (advanceAll today (take k rest)) (templates t1)"
      and en: "entries t' = entries t1 @ generatedFor today (take j rest)"
      and rs: "case res of Inr m \<Rightarrow> k = length rest \<and> j = length rest
                 \<and> m = n + k1 + length (generatedFor today rest)
               | Inl err \<Rightarrow> k < length rest"
      by blast
    have tm': "templates t' = map (advanceAll today (take (Suc k) (r # rest))) (templates t)"
      unfolding tm ok(3) using dd by (rule advance_compose)
    have en': "entries t' = entries t @ generatedFor today (take (Suc j) (r # rest))"
      using en ok(4) generatedFor_Cons [of today r "take j rest"] by simp
    have rs': "case res of Inr m \<Rightarrow> Suc k = length (r # rest) \<and> Suc j = length (r # rest)
                 \<and> m = n + length (generatedFor today (r # rest))
               | Inl err \<Rightarrow> Suc k < length (r # rest)"
      using rs ok(2) generatedFor_Cons [of today r rest] by (simp split: sum.splits)
    have "Suc k \<le> Suc j \<and> Suc j \<le> Suc (Suc k) \<and> Suc j \<le> length (r # rest)"
      using kj by simp
    with tm' en' rs' show ?thesis by blast
  qed
qed

lemma batchInv_due:
  "distinct (map rid (templates t)) \<Longrightarrow> batchInv (dueIn today (templates t)) (t\<lparr>faults := fs\<rparr>)"
  by (simp add: batchInv_def dueIn_def distinct_map_filter)

lemma findDue_cases:
  assumes "findDue today t = (res, t1)"
  shows "templates t1 = templates t" "entries t1 = entries t"
    and "res = Inl StoreError \<or> res = Inr (dueIn today (templates t))"
    and "faults t1 = snd (attempt (faults t))"
    and "t1 = t\<lparr>faults := faults t1\<rparr>"
  using assms
  by (auto simp add: findDue_def dueIn_def split: prod.splits bool.splits)

lemma sweep_result:
  assumes "distinct (map rid (templates t))" "sweep today t = (res, t')"
  shows "\<exists>k j. k \<le> j \<and> j \<le> Suc k \<and> j \<le> length (dueIn today (templates t))
       \<and> templates t' = map (advanceAll today (take k (dueIn today (templates t)))) (templates t)
       \<and> entries t' = entries t @ generatedFor today (take j (dueIn today (templates t)))
       \<and> (case res of
             Inr (m, l) \<Rightarrow> k = l \<and> j = l \<and> l = length (dueIn today (templates t))
                \<and> m = length (generatedFor today (dueIn today (templates t)))
           | Inl err \<Rightarrow> True)"
proof -
  let ?due = "dueIn today (templates t)"
  obtain r1 t1 where f: "findDue today t = (r1, t1)" by (cases "findDue today t")
  note fc = findDue_cases [OF f]
  from fc(3) show ?thesis
  proof
    assume "r1 = Inl StoreError"
    then have "res = Inl StoreError" "t' = t1"
      using assms(2) f by (simp_all add: sweep_def)
    then have "0 \<le> (0::nat) \<and> (0::nat) \<le> Suc 0 \<and> 0 \<le> length ?due
       \<and> templates t' = map (advanceAll today (take 0 ?due)) (templates t)
       \<and> entries t' = entries t @ generatedFor today (take 0 ?due)
       \<and> (case res of
             Inr (m, l) \<Rightarrow> 0 = l \<and> 0 = l \<and> l = length ?due \<and> m = length (generatedFor today ?due)
           | Inl err \<Rightarrow> True)"
      using fc(1,2) by (simp add: generatedFor_def)
    then show ?thesis by blast
  next
    assume r1: "r1 = Inr ?due"
    obtain r2 t2 where p: "processDue today ?due 0 t1 = (r2, t2)"
      by (cases "processDue today ?due 0 t1")
    have "batchInv ?due (t\<lparr>faults := faults t1\<rparr>)"
      using assms(1) by (rule batchInv_due)
    then have inv: "batchInv ?due t1" using fc(5) by simp
    from processDue_result [OF inv p] obtain k j where
      kj: "k \<le> j" "j \<le> Suc k" "j \<le> length ?due"
      and tm: "templates t2 = map (advanceAll today (take k ?due)) (templates t1)"
      and en: "entries t2 = entries t1 @ generatedFor today (take j ?due)"
      and rs: "case r2 of Inr m \<Rightarrow> k = length ?due \<and> j = length ?due
                 \<and> m = 0 + length (generatedFor today ?due)
               | Inl err \<Rightarrow> k < length ?due"
      by blast
    have t': "t' = t2" using assms(2) f r1 p by (simp add: sweep_def split: sum.splits)
    have res: "case res of
             Inr (m, l) \<Rightarrow> k = l \<and> j = l \<and> l = length ?due \<and> m = length (generatedFor today ?due)
           | Inl err \<Rightarrow> True"
      using assms(2) f r1 p rs by (auto simp add: sweep_def split: sum.splits)
    show ?thesis using kj tm en res t' fc(1,2) by auto
  qed
qed

lemma sweptTo_refl: "sweptTo today rows ents rows ents 0 0"
  by (simp add: sweptTo_def generatedFor_def)

lemma sweep_sweptTo:
  assumes "distinct (map rid (templates t))" "sweep today t = (res, t')"
  shows "\<exists>k j. sweptTo today (templates t) (entries t) (templates t') (entries t') k j
       \<and> (case res of
             Inr (m, l) \<Rightarrow> k = l \<and> j = l \<and> l = length (dueIn today (templates t))
                \<and> m = length (generatedFor today (dueIn today (templates t)))
           | Inl err \<Rightarrow> True)"
  using sweep_result [OF assms] unfolding sweptTo_def by blast

lemma process_result:
  assumes "distinct (map rid (recurringExpense w))" "distinct (map rid (recurringIncome w))"
      and "processRecurringTransactions now w = (res, w')"
  shows "\<exists>kE jE kI jI.
       sweptTo (startOfDay now) (recurringExpense w) (expense w) (recurringExpense w') (expense w') kE jE
     \<and> sweptTo (startOfDay now) (recurringIncome w) (income w) (recurringIncome w') (income w') kI jI
     \<and> (case res of
           Inr s \<Rightarrow> kE = length (dueIn (startOfDay now) (recurringExpense w)) \<and> jE = kE
              \<and> kI = length (dueIn (startOfDay now) (recurringIncome w)) \<and> jI = kI
              \<and> s = \<lparr>expensesCreated = length (generatedFor (startOfDay now) (dueIn (startOfDay now) (recurringExpense w))),
                     incomesCreated = length (generatedFor (startOfDay now) (dueIn (startOfDay now) (recurringIncome w))),
                     totalProcessed = kE + kI\<rparr>
         | Inl err \<Rightarrow> True)"
proof -
  obtain rE te where e: "sweep (startOfDay now) (expenseTables w) = (rE, te)"
    by (cases "sweep (startOfDay now) (expenseTables w)")
  have dE: "distinct (map rid (templates (expenseTables w)))"
    using assms(1) by (simp add: expenseTables_def)
  have tE: "templates (expenseTables w) = recurringExpense w" "entries (expenseTables w) = expense w"
    by (simp_all add: expenseTables_def)
  from sweep_sweptTo [OF dE e, unfolded tE] obtain kE jE where
    sE: "sweptTo (startOfDay now) (recurringExpense w) (expense w) (templates te) (entries te) kE jE"
    and rsE: "case rE of
             Inr (m, l) \<Rightarrow> kE = l \<and> jE = l \<and> l = length (dueIn (startOfDay now) (recurringExpense w))
                \<and> m = length (generatedFor (startOfDay now) (dueIn (startOfDay now) (recurringExpense w)))
           | Inl err \<Rightarrow> True"
    by blast
  show ?thesis
  proof (cases rE)
    case (Inl err)
    then have "res = Inl err" "w' = putExpenseTables te w"
      using assms(3) e by (simp_all add: processRecurringTransactions_def Let_def)
    then show ?thesis
      using sE sweptTo_refl [of "startOfDay now" "recurringIncome w" "income w"]
      by (auto simp add: putExpenseTables_def)
  next
    case (Inr ml)
    obtain m l where ml: "ml = (m, l)" by (cases ml)
    let ?w1 = "putExpenseTables te w"
    obtain rI ti where i: "sweep (startOfDay now) (incomeTables ?w1) = (rI, ti)"
      by (cases "sweep (startOfDay now) (incomeTables ?w1)")
    have dI: "distinct (map rid (templates (incomeTables ?w1)))"
      using assms(2) by (simp add: incomeTables_def putExpenseTables_def)
    have tI: "templates (incomeTables ?w1) = recurringIncome w" "entries (incomeTables ?w1) = income w"
      by (simp_all add: incomeTables_def putExpenseTables_def)
    from sweep_sweptTo [OF dI i, unfolded tI] obtain kI jI where
      sI: "sweptTo (startOfDay now) (recurringIncome w) (income w) (templates ti) (entries ti) kI jI"
      and rsI: "case rI of
             Inr (m, l) \<Rightarrow> kI = l \<and> jI = l \<and> l = length (dueIn (startOfDay now) (recurringIncome w))
                \<and> m = length (generatedFor (startOfDay now) (dueIn (startOfDay now) (recurringIncome w)))
           | Inl err \<Rightarrow> True"
      by blast
    have w': "w' = putIncomeTables ti ?w1"
      using assms(3) e i Inr ml
      by (auto simp add: processRecurringTransactions_def Let_def split: sum.splits prod.splits)
    have tabs: "recurringExpense w' = templates te" "expense w' = entries te"
      "recurringIncome w' = templates ti" "income w' = entries ti"
      by (simp_all add: w' putIncomeTables_def putExpenseTables_def)
    have res: "case res of
           Inr s \<Rightarrow> kE = length (dueIn (startOfDay now) (recurringExpense w)) \<and> jE = kE
              \<and> kI = length (dueIn (startOfDay now) (recurringIncome w)) \<and> jI = kI
              \<and> s = \<lparr>expensesCreated = length (generatedFor (startOfDay now) (dueIn (startOfDay now) (recurringExpense w))),
                     incomesCreated = length (generatedFor (startOfDay now) (dueIn (startOfDay now) (recurringIncome w))),
                     totalProcessed = kE + kI\<rparr>
         | Inl err \<Rightarrow> True"
      using assms(3) e i Inr ml rsE rsI
      by (auto simp add: processRecurringTransactions_def Let_def split: sum.splits prod.splits)
    show ?thesis using sE sI res unfolding tabs by blast
  qed
qed

subsection \<open>The order of dates\<close>



lemma date_lt_trans: "date_lt a b \<Longrightarrow> date_lt b c \<Longrightarrow> date_lt a c"
  by (auto simp add: date_lt_def)

lemma date_le_lt_trans: "date_le a b \<Longrightarrow> date_lt b c \<Longrightarrow> date_le a c"
  using date_lt_trans by (auto simp add: date_le_def)


lemma date_not_le: "\<not> date_le a b \<Longrightarrow> date_lt b (a :: date)"
  by (cases a, cases b) (auto simp add: date_le_def date_lt_def)


lemma rid_advanceAll [simp]: "rid (advanceAll today done x) = rid x"
  by (simp add: advanceAll_def)

lemma sweptTo_ids:
  "sweptTo today rows ents rows' ents' k j \<Longrightarrow> map rid rows' = map rid rows"
  by (simp add: sweptTo_def comp_def)

lemma dueIn_subset: "set (take k (dueIn today rows)) \<subseteq> set rows"
  using set_take_subset [of k "dueIn today rows"] by (auto simp add: dueIn_def)

lemma distinct_rid_selected:
  assumes "distinct (map rid rows)"
  shows "distinct (map rid (filter P (take j (dueIn today rows))))"
proof -
  have "distinct (map rid (dueIn today rows))"
    using assms by (simp add: dueIn_def distinct_map_filter)
  then have "distinct (take j (map rid (dueIn today rows)))" by (rule distinct_take)
  then have "distinct (map rid (take j (dueIn today rows)))" by (simp add: take_map)
  then show ?thesis by (rule distinct_map_filter)
qed

lemma sweptTo_new_entries:
  assumes "distinct (map rid rows)" "sweptTo today rows ents rows' ents' k j"
  shows "\<exists>es. ents' = ents @ map entryOf es \<and> distinct (map rid es) \<and> set es \<subseteq> set (dueIn today rows)"
proof -
  let ?es = "filter (\<lambda>r. \<not> expired today r) (take j (dueIn today rows))"
  have "ents' = ents @ map entryOf ?es"
    using assms(2) by (simp add: sweptTo_def generatedFor_def)
  moreover have "distinct (map rid ?es)" using assms(1) by (rule distinct_rid_selected)
  moreover have "set ?es \<subseteq> set (dueIn today rows)"
    using set_take_subset [of j "dueIn today rows"] by auto
  ultimately show ?thesis by blast
qed


subsection \<open>A run without failures\<close>







subsection \<open>What a run changes\<close>







section \<open>Example stores\<close>

text \<open>
  Expense templates used to evaluate the handlers: a monthly rent anchored on Jan 31
  2025, a weekly gym fee anchored on Jan 28 2025, and a monthly pass whose next date,
  Feb 1 2025, is also its end date. Their dates are at local midnight, as date-only
  strings are where local time is UTC. The last template is the pass where local time
  is five and a half hours ahead of UTC: its dates are at 05:30.
\<close>

definition rentTemplate :: "expenseFields recurring" where
  "rentTemplate =
     \<lparr>rid = ''r1'', userId = ''u1'', amount = 100,
      details = \<lparr>description = ''Rent'', category = ''Bills''\<rparr>,
      frequency = ''monthly'',
      startDate = \<lparr>year = 2025, month = 0, day = 31, millis = 0\<rparr>,
      nextDate = \<lparr>year = 2025, month = 0, day = 31, millis = 0\<rparr>,
      endDate = None, isActive = True\<rparr>"

definition gymTemplate :: "expenseFields recurring" where
  "gymTemplate =
     \<lparr>rid = ''r2'', userId = ''u1'', amount = 20,
      details = \<lparr>description = ''Gym'', category = ''Healthcare''\<rparr>,
      frequency = ''weekly'',
      startDate = \<lparr>year = 2025, month = 0, day = 28, millis = 0\<rparr>,
      nextDate = \<lparr>year = 2025, month = 0, day = 28, millis = 0\<rparr>,
      endDate = None, isActive = True\<rparr>"

definition passTemplate :: "expenseFields recurring" where
  "passTemplate =
     \<lparr>rid = ''r3'', userId = ''u1'', amount = 45,
      details = \<lparr>description = ''Metro pass'', category = ''Transport''\<rparr>,
      frequency = ''monthly'',
      startDate = \<lparr>year = 2025, month = 0, day = 1, millis = 0\<rparr>,
      nextDate = \<lparr>year = 2025, month = 1, day = 1, millis = 0\<rparr>,
      endDate = Some \<lparr>year = 2025, month = 1, day = 1, millis = 0\<rparr>, isActive = True\<rparr>"


definition storeOf :: "expenseFields recurring list \<Rightarrow> bool list \<Rightarrow> world" where
  "storeOf rows fs = \<lparr>recurringExpense = rows, expense = [], recurringIncome = [], income = [], pending = fs\<rparr>"

lemmas store_defs =
  processRecurringTransactions_def sweep_def findDue_def updateTemplate_def createEntry_def
  attempt_def isDue_def expired_def shouldDeactivate_def entryOf_def startOfDay_def Let_def
  expenseTables_def incomeTables_def putExpenseTables_def putIncomeTables_def
  date_le_def date_lt_def

lemma calc_jan31: "calculateNextDate \<lparr>year = 2025, month = 0, day = 31, millis = 0\<rparr> ''monthly''
    = Inr \<lparr>year = 2025, month = 1, day = 28, millis = 0\<rparr>"
proof -
  have v: "valid_date \<lparr>year = 2025, month = 0, day = 31, millis = 0\<rparr>"
    by (simp add: valid_date_def daysInMonth_def)
  show ?thesis
    by (simp add: calc_monthly [OF v] nextMonthYear_def nextMonth_def daysInMonth_def isLeapYear_def)
qed

lemma calc_jan28_weekly: "calculateNextDate \<lparr>year = 2025, month = 0, day = 28, millis = 0\<rparr> ''weekly''
    = Inr \<lparr>year = 2025, month = 1, day = 4, millis = 0\<rparr>"
proof -
  have v: "valid_date \<lparr>year = 2025, month = 0, day = 28, millis = 0\<rparr>"
    by (simp add: valid_date_def daysInMonth_def)
  show ?thesis
    by (simp add: calc_weekly [OF v] nextMonthYear_def nextMonth_def daysInMonth_def)
qed

lemma calc_feb1_monthly: "calculateNextDate \<lparr>year = 2025, month = 1, day = 1, millis = 0\<rparr> ''monthly''
    = Inr \<lparr>year = 2025, month = 2, day = 1, millis = 0\<rparr>"
proof -
  have v: "valid_date \<lparr>year = 2025, month = 1, day = 1, millis = 0\<rparr>"
    by (simp add: valid_date_def daysInMonth_def isLeapYear_def)
  show ?thesis
    by (simp add: calc_monthly [OF v] nextMonthYear_def nextMonth_def daysInMonth_def)
qed

lemmas example_defs = storeOf_def rentTemplate_def gymTemplate_def passTemplate_def
  calc_jan31 calc_jan28_weekly calc_feb1_monthly

lemma example_ids:
  "distinct (map rid (recurringExpense (storeOf [rentTemplate] fs)))"
  "distinct (map rid (recurringIncome (storeOf rows fs)))"
  "distinct (map rid (recurringExpense (storeOf [passTemplate] fs)))"
  "distinct (map rid (recurringExpense (storeOf [rentTemplate, gymTemplate] fs)))"
  by (simp_all add: storeOf_def rentTemplate_def gymTemplate_def passTemplate_def)

section \<open>Claims about the batch processor\<close>

text \<open>
  C2. The claim: the generated entry and the advance of the template's \<open>nextDate\<close> are
  one atomic unit. The repository's notes say the same (seed-demo.js: "nextDate updated
  in same transaction as creation", "Both operations atomic"), but the code makes two
  separate calls, \<open>create\<close> (line 478) and \<open>update\<close> (line 495), outside any
  transaction. When the update throws after the entry was created, the entry stays and
  the template is still due with its old \<open>nextDate\<close>; the next run creates the same
  occurrence again.
\<close>

theorem entry_without_advance:
  "processRecurringTransactions \<lparr>year = 2025, month = 1, day = 1, millis = 0\<rparr> (storeOf [rentTemplate] [False, False, True])
     = (Inl StoreError,
        \<lparr>recurringExpense = [rentTemplate], expense = [entryOf rentTemplate],
         recurringIncome = [], income = [], pending = []\<rparr>)
   \<and> processRecurringTransactions \<lparr>year = 2025, month = 1, day = 1, millis = 0\<rparr>
        \<lparr>recurringExpense = [rentTemplate], expense = [entryOf rentTemplate],
         recurringIncome = [], income = [], pending = []\<rparr>
     = (Inr \<lparr>expensesCreated = 1, incomesCreated = 0, totalProcessed = 1\<rparr>,
        \<lparr>recurringExpense = [rentTemplate\<lparr>nextDate := \<lparr>year = 2025, month = 1, day = 28, millis = 0\<rparr>\<rparr>],
         expense = [entryOf rentTemplate, entryOf rentTemplate],
         recurringIncome = [], income = [], pending = []\<rparr>)"
  by (simp add: store_defs example_defs)









text \<open>
  C10. One run creates at most one entry for a template: the new entries of each table
  are the entries of pairwise different due templates of that table, each dated the
  \<open>nextDate\<close> stored when the run began, however far that date lies behind the
  processing date. In the example the rent template lags two months and a half behind;
  one entry, dated Jan 31, is created, and \<open>nextDate\<close> moves one month only.
\<close>

theorem one_entry_per_template:
  assumes "distinct (map rid (recurringExpense w))" "distinct (map rid (recurringIncome w))"
      and "processRecurringTransactions now w = (res, w')"
  shows "\<exists>es ins.
       expense w' = expense w @ map entryOf es \<and> distinct (map rid es)
         \<and> set es \<subseteq> set (dueIn (startOfDay now) (recurringExpense w))
         \<and> map entryDate (map entryOf es) = map nextDate es
     \<and> income w' = income w @ map entryOf ins \<and> distinct (map rid ins)
         \<and> set ins \<subseteq> set (dueIn (startOfDay now) (recurringIncome w))
         \<and> map entryDate (map entryOf ins) = map nextDate ins"
proof -
  from process_result [OF assms] obtain kE jE kI jI where
    sE: "sweptTo (startOfDay now) (recurringExpense w) (expense w) (recurringExpense w') (expense w') kE jE"
    and sI: "sweptTo (startOfDay now) (recurringIncome w) (income w) (recurringIncome w') (income w') kI jI"
    by blast
  from sweptTo_new_entries [OF assms(1) sE] obtain es where
    es: "expense w' = expense w @ map entryOf es" "distinct (map rid es)"
      "set es \<subseteq> set (dueIn (startOfDay now) (recurringExpense w))"
    by blast
  from sweptTo_new_entries [OF assms(2) sI] obtain ins where
    ins: "income w' = income w @ map entryOf ins" "distinct (map rid ins)"
      "set ins \<subseteq> set (dueIn (startOfDay now) (recurringIncome w))"
    by blast
  have "map entryDate (map entryOf es) = map nextDate es"
    and "map entryDate (map entryOf ins) = map nextDate ins"
    by (simp_all add: entryOf_def comp_def)
  with es ins show ?thesis by blast
qed

theorem one_entry_per_template_witness:
  "processRecurringTransactions \<lparr>year = 2025, month = 3, day = 15, millis = 0\<rparr> (storeOf [rentTemplate] [])
     = (Inr \<lparr>expensesCreated = 1, incomesCreated = 0, totalProcessed = 1\<rparr>,
        \<lparr>recurringExpense = [rentTemplate\<lparr>nextDate := \<lparr>year = 2025, month = 1, day = 28, millis = 0\<rparr>\<rparr>],
         expense = [entryOf rentTemplate], recurringIncome = [], income = [], pending = []\<rparr>)
   \<and> entryDate (entryOf rentTemplate) = \<lparr>year = 2025, month = 0, day = 31, millis = 0\<rparr>
   \<and> date_lt \<lparr>year = 2025, month = 1, day = 28, millis = 0\<rparr> \<lparr>year = 2025, month = 3, day = 15, millis = 0\<rparr>"
proof -
  have run: "processRecurringTransactions \<lparr>year = 2025, month = 3, day = 15, millis = 0\<rparr> (storeOf [rentTemplate] [])
     = (Inr \<lparr>expensesCreated = 1, incomesCreated = 0, totalProcessed = 1\<rparr>,
        \<lparr>recurringExpense = [rentTemplate\<lparr>nextDate := \<lparr>year = 2025, month = 1, day = 28, millis = 0\<rparr>\<rparr>],
         expense = [entryOf rentTemplate], recurringIncome = [], income = [], pending = []\<rparr>)"
    by (simp add: store_defs example_defs)
  from one_entry_per_template [OF example_ids(1) example_ids(2) run]
  show ?thesis using run by (simp add: entryOf_def rentTemplate_def date_lt_def)
qed

section \<open>Properties of the template handlers\<close>

text \<open>
  A template is anchored when its next date is a calendar date not before its start
  date.
\<close>

definition anchored :: "'d recurring \<Rightarrow> bool" where
  "anchored r = (valid_date (nextDate r) \<and> date_le (startDate r) (nextDate r))"

definition tablesInv :: "'d tables \<Rightarrow> bool" where
  "tablesInv t = (distinct (map rid (templates t)) \<and> list_all anchored (templates t))"

definition storeInv :: "world \<Rightarrow> bool" where
  "storeInv w =
     (distinct (map rid (recurringExpense w)) \<and> distinct (map rid (recurringIncome w))
      \<and> list_all anchored (recurringExpense w) \<and> list_all anchored (recurringIncome w))"

text \<open>A body whose start date, when present, is a calendar date.\<close>

definition wellFormed :: "'b createBody \<Rightarrow> bool" where
  "wellFormed body = (case startDateField body of None \<Rightarrow> True | Some d \<Rightarrow> valid_date d)"

text \<open>
  The stores that the handlers produce from the empty store, under any schedule of
  failing store calls, when no update names \<open>nextDate\<close> in its body.
\<close>

inductive reachable :: "world \<Rightarrow> bool" where
  initial: "reachable \<lparr>recurringExpense = [], expense = [], recurringIncome = [], income = [], pending = fs\<rparr>"
| schedule: "reachable w \<Longrightarrow> reachable (w\<lparr>pending := fs\<rparr>)"
| createExpense: "reachable w \<Longrightarrow> wellFormed body \<Longrightarrow>
     reachable (snd (createRecurringExpense uid body newId w))"
| createIncome: "reachable w \<Longrightarrow> wellFormed body' \<Longrightarrow>
     reachable (snd (createRecurringIncome uid body' newId w))"
| updateExpense: "reachable w \<Longrightarrow> newNextDate updates = None \<Longrightarrow>
     reachable (snd (updateRecurringExpense uid i updates w))"
| updateIncome: "reachable w \<Longrightarrow> newNextDate updates' = None \<Longrightarrow>
     reachable (snd (updateRecurringIncome uid i updates' w))"
| deleteExpense: "reachable w \<Longrightarrow> reachable (snd (deleteRecurringExpense uid i w))"
| deleteIncome: "reachable w \<Longrightarrow> reachable (snd (deleteRecurringIncome uid i w))"
| process: "reachable w \<Longrightarrow> reachable (snd (processRecurringTransactions now w))"

text \<open>Two requests used to evaluate the handlers.\<close>

definition noChange :: "expenseInput updateBody" where
  "noChange =
     \<lparr>newAmount = None, newDetails = \<lparr>descriptionField = None, categoryField = None\<rparr>,
      newFrequency = None, newUserId = None, newStartDate = None, newNextDate = None,
      newEndDate = None, newIsActive = None\<rparr>"

definition rentBody :: "expenseInput createBody" where
  "rentBody =
     \<lparr>amountField = Some 100,
      detailFields = \<lparr>descriptionField = Some ''Rent'', categoryField = Some ''Bills''\<rparr>,
      frequencyField = Some ''monthly'',
      startDateField = Some \<lparr>year = 2025, month = 0, day = 31, millis = 0\<rparr>,
      endDateField = None\<rparr>"

subsection \<open>The guards of update and delete\<close>

lemma updateRecurring_guards:
  assumes "attempt (faults t) = (False, fs)"
  shows "find (\<lambda>r. rid r = i) (templates t) = None \<Longrightarrow>
           updateRecurring change uid i updates t = (NotFound, t\<lparr>faults := fs\<rparr>)"
    and "find (\<lambda>r. rid r = i) (templates t) = Some existing \<Longrightarrow> userId existing \<noteq> uid \<Longrightarrow>
           updateRecurring change uid i updates t = (NotAuthorized, t\<lparr>faults := fs\<rparr>)"
  using assms by (simp_all add: updateRecurring_def)

lemma deleteRecurring_guards:
  assumes "attempt (faults t) = (False, fs)"
  shows "find (\<lambda>r. rid r = i) (templates t) = None \<Longrightarrow>
           deleteRecurring uid i t = (NotFound, t\<lparr>faults := fs\<rparr>)"
    and "find (\<lambda>r. rid r = i) (templates t) = Some existing \<Longrightarrow> userId existing \<noteq> uid \<Longrightarrow>
           deleteRecurring uid i t = (NotAuthorized, t\<lparr>faults := fs\<rparr>)"
  using assms by (simp_all add: deleteRecurring_def)

lemma put_expense_faults:
  "putExpenseTables ((expenseTables w)\<lparr>faults := fs\<rparr>) w = w\<lparr>pending := fs\<rparr>"
  by (simp add: putExpenseTables_def expenseTables_def)

lemma put_income_faults:
  "putIncomeTables ((incomeTables w)\<lparr>faults := fs\<rparr>) w = w\<lparr>pending := fs\<rparr>"
  by (simp add: putIncomeTables_def incomeTables_def)

subsection \<open>Anchored templates stay anchored\<close>

lemma storeInv_tables:
  "storeInv w = (tablesInv (expenseTables w) \<and> tablesInv (incomeTables w))"
  by (auto simp add: storeInv_def tablesInv_def expenseTables_def incomeTables_def)

lemma tablesInv_put_expense:
  "tablesInv t \<Longrightarrow> storeInv w \<Longrightarrow> storeInv (putExpenseTables t w)"
  by (simp add: storeInv_def tablesInv_def putExpenseTables_def)

lemma tablesInv_put_income:
  "tablesInv t \<Longrightarrow> storeInv w \<Longrightarrow> storeInv (putIncomeTables t w)"
  by (simp add: storeInv_def tablesInv_def putIncomeTables_def)

lemma createRecurring_inv:
  assumes "tablesInv t" "wellFormed body"
  shows "tablesInv (snd (createRecurring parse uid body newId t))"
  using assms
  by (auto simp add: createRecurring_def tablesInv_def wellFormed_def anchored_def date_le_def Let_def
      split: prod.splits bool.splits option.splits)

lemma createRecurring_created:
  assumes "createRecurring parse uid body newId t = (Created, t')"
  shows "\<exists>row. templates t' = templates t @ [row] \<and> nextDate row = startDate row \<and> isActive row
       \<and> (case endDate row of None \<Rightarrow> True | Some e \<Rightarrow> date_lt (startDate row) e)"
  using assms
  by (auto simp add: createRecurring_def Let_def date_not_le
      split: prod.splits bool.splits option.splits if_splits)

lemma applyUpdates_anchored:
  "newNextDate updates = None \<Longrightarrow> anchored r \<Longrightarrow> anchored (applyUpdates change updates r)"
  by (simp add: applyUpdates_def anchored_def orElse_def)

lemma rid_applyUpdates [simp]: "rid (applyUpdates change updates r) = rid r"
  by (simp add: applyUpdates_def)

lemma updateRecurring_inv:
  assumes "tablesInv t" "newNextDate updates = None"
  shows "tablesInv (snd (updateRecurring change uid i updates t))"
proof -
  let ?f = "\<lambda>r. if rid r = i then applyUpdates change updates r else r"
  have ids: "map (rid \<circ> ?f) (templates t) = map rid (templates t)"
    by (rule map_cong [OF refl]) simp
  have "list_all anchored (map ?f (templates t))"
    using assms by (auto simp add: tablesInv_def list_all_iff applyUpdates_anchored)
  then have "tablesInv (t\<lparr>templates := map ?f (templates t), faults := fs\<rparr>)" for fs
    using assms(1) by (simp add: tablesInv_def ids)
  moreover have "tablesInv (t\<lparr>faults := fs\<rparr>)" for fs
    using assms(1) by (simp add: tablesInv_def)
  ultimately show ?thesis
    by (simp add: updateRecurring_def split: prod.splits bool.splits option.splits)
qed

lemma deleteRecurring_inv:
  assumes "tablesInv t"
  shows "tablesInv (snd (deleteRecurring uid i t))"
proof -
  have "tablesInv (t\<lparr>templates := filter (\<lambda>r. rid r \<noteq> i) (templates t), entries := es, faults := fs\<rparr>)" for es fs
    using assms by (auto simp add: tablesInv_def distinct_map_filter list_all_iff)
  moreover have "tablesInv (t\<lparr>faults := fs\<rparr>)" for fs
    using assms by (simp add: tablesInv_def)
  ultimately show ?thesis
    by (simp add: deleteRecurring_def split: prod.splits bool.splits option.splits)
qed

lemma advanced_anchored:
  assumes "anchored r"
  shows "anchored (advanced today r)"
proof (cases "expired today r")
  case True
  then show ?thesis using assms by (simp add: advanced_def anchored_def)
next
  case False
  show ?thesis
  proof (cases "calculateNextDate (nextDate r) (frequency r)")
    case (Inl err)
    then show ?thesis using assms False by (simp add: advanced_def)
  next
    case (Inr nd)
    have v: "valid_date (nextDate r)" and le: "date_le (startDate r) (nextDate r)"
      using assms by (simp_all add: anchored_def)
    from calc_later [OF v Inr] have "date_lt (nextDate r) nd" "valid_date nd" by simp_all
    then show ?thesis using False Inr date_le_lt_trans [OF le]
      by (simp add: advanced_def anchored_def)
  qed
qed

lemma sweptTo_anchored:
  assumes "sweptTo today rows ents rows' ents' k j" "list_all anchored rows"
  shows "list_all anchored rows'"
  using assms by (auto simp add: sweptTo_def list_all_iff advanceAll_def advanced_anchored)

lemma process_inv:
  assumes "storeInv w"
  shows "storeInv (snd (processRecurringTransactions now w))"
proof -
  obtain res w' where run: "processRecurringTransactions now w = (res, w')"
    by (cases "processRecurringTransactions now w")
  have d: "distinct (map rid (recurringExpense w))" "distinct (map rid (recurringIncome w))"
    using assms by (simp_all add: storeInv_def)
  from process_result [OF d run] obtain kE jE kI jI where
    sE: "sweptTo (startOfDay now) (recurringExpense w) (expense w) (recurringExpense w') (expense w') kE jE"
    and sI: "sweptTo (startOfDay now) (recurringIncome w) (income w) (recurringIncome w') (income w') kI jI"
    by blast
  have "storeInv w'"
    using assms d sweptTo_ids [OF sE] sweptTo_ids [OF sI] sweptTo_anchored [OF sE] sweptTo_anchored [OF sI]
    by (simp add: storeInv_def)
  then show ?thesis using run by simp
qed

lemma reachable_inv: "reachable w \<Longrightarrow> storeInv w"
proof (induction rule: reachable.induct)
  case (initial fs)
  show ?case by (simp add: storeInv_def)
next
  case (schedule w fs)
  then show ?case by (simp add: storeInv_def)
next
  case (createExpense w body uid newId)
  have "tablesInv (snd (createRecurring expenseDetails uid body newId (expenseTables w)))"
    using createExpense by (intro createRecurring_inv) (simp_all add: storeInv_tables)
  then show ?case using createExpense.IH
    by (simp add: createRecurringExpense_def tablesInv_put_expense case_prod_beta)
next
  case (createIncome w body' uid newId)
  have "tablesInv (snd (createRecurring incomeDetails uid body' newId (incomeTables w)))"
    using createIncome by (intro createRecurring_inv) (simp_all add: storeInv_tables)
  then show ?case using createIncome.IH
    by (simp add: createRecurringIncome_def tablesInv_put_income case_prod_beta)
next
  case (updateExpense w updates uid i)
  have "tablesInv (snd (updateRecurring changeExpense uid i updates (expenseTables w)))"
    using updateExpense by (intro updateRecurring_inv) (simp_all add: storeInv_tables)
  then show ?case using updateExpense.IH
    by (simp add: updateRecurringExpense_def tablesInv_put_expense case_prod_beta)
next
  case (updateIncome w updates' uid i)
  have "tablesInv (snd (updateRecurring changeIncome uid i updates' (incomeTables w)))"
    using updateIncome by (intro updateRecurring_inv) (simp_all add: storeInv_tables)
  then show ?case using updateIncome.IH
    by (simp add: updateRecurringIncome_def tablesInv_put_income case_prod_beta)
next
  case (deleteExpense w uid i)
  have "tablesInv (snd (deleteRecurring uid i (expenseTables w)))"
    using deleteExpense by (intro deleteRecurring_inv) (simp_all add: storeInv_tables)
  then show ?case using deleteExpense.IH
    by (simp add: deleteRecurringExpense_def tablesInv_put_expense case_prod_beta)
next
  case (deleteIncome w uid i)
  have "tablesInv (snd (deleteRecurring uid i (incomeTables w)))"
    using deleteIncome by (intro deleteRecurring_inv) (simp_all add: storeInv_tables)
  then show ?case using deleteIncome.IH
    by (simp add: deleteRecurringIncome_def tablesInv_put_income case_prod_beta)
next
  case (process w now)
  then show ?case by (simp add: process_inv)
qed

lemma create_rent:
  "createRecurringExpense ''u1'' rentBody ''r1'' (storeOf [] []) = (Created, storeOf [rentTemplate] [])"
  by (simp add: createRecurringExpense_def createRecurring_def rentBody_def storeOf_def rentTemplate_def
      expenseTables_def putExpenseTables_def attempt_def truthy_def truthyNumber_def expenseDetails_def
      validFrequencies_def Let_def)

section \<open>Claims about the template handlers\<close>

text \<open>
  C5. The claim: for update and delete, a template that does not exist and a template
  of another owner give the same NotFound result. The handlers tell them apart: the
  first is answered with status 404 (lines 111 and 180), the second with status 403
  (lines 118 and 187).
\<close>

theorem missing_and_foreign_differ_counterexample:
  "updateRecurringExpense ''u2'' ''r9'' noChange (storeOf [rentTemplate] [])
     = (NotFound, storeOf [rentTemplate] [])
   \<and> updateRecurringExpense ''u2'' ''r1'' noChange (storeOf [rentTemplate] [])
     = (NotAuthorized, storeOf [rentTemplate] [])
   \<and> deleteRecurringExpense ''u2'' ''r9'' (storeOf [rentTemplate] [])
     = (NotFound, storeOf [rentTemplate] [])
   \<and> deleteRecurringExpense ''u2'' ''r1'' (storeOf [rentTemplate] [])
     = (NotAuthorized, storeOf [rentTemplate] [])
   \<and> status NotFound = 404 \<and> status NotAuthorized = 403
   \<and> userId rentTemplate = ''u1''"
  by (simp add: updateRecurringExpense_def updateRecurring_def deleteRecurringExpense_def
      deleteRecurring_def attempt_def expenseTables_def putExpenseTables_def storeOf_def
      rentTemplate_def)

text \<open>
  C5, as amended. When the lookup itself does not fail, update and delete answer a
  template id that does not exist with status 404 and a template of another owner with
  status 403, and in both cases no row of the store is changed. The same holds for the
  income handlers.
\<close>

theorem missing_is_404_foreign_is_403:
  assumes "attempt (pending w) = (False, fs)"
  shows "(find (\<lambda>r. rid r = i) (recurringExpense w) = None \<longrightarrow>
            updateRecurringExpense uid i updates w = (NotFound, w\<lparr>pending := fs\<rparr>)
          \<and> deleteRecurringExpense uid i w = (NotFound, w\<lparr>pending := fs\<rparr>))
       \<and> (\<forall>existing. find (\<lambda>r. rid r = i) (recurringExpense w) = Some existing
              \<and> userId existing \<noteq> uid \<longrightarrow>
            updateRecurringExpense uid i updates w = (NotAuthorized, w\<lparr>pending := fs\<rparr>)
          \<and> deleteRecurringExpense uid i w = (NotAuthorized, w\<lparr>pending := fs\<rparr>))
       \<and> (find (\<lambda>r. rid r = i) (recurringIncome w) = None \<longrightarrow>
            updateRecurringIncome uid i updates' w = (NotFound, w\<lparr>pending := fs\<rparr>)
          \<and> deleteRecurringIncome uid i w = (NotFound, w\<lparr>pending := fs\<rparr>))
       \<and> (\<forall>existing. find (\<lambda>r. rid r = i) (recurringIncome w) = Some existing
              \<and> userId existing \<noteq> uid \<longrightarrow>
            updateRecurringIncome uid i updates' w = (NotAuthorized, w\<lparr>pending := fs\<rparr>)
          \<and> deleteRecurringIncome uid i w = (NotAuthorized, w\<lparr>pending := fs\<rparr>))
       \<and> status NotFound = 404 \<and> status NotAuthorized = 403"
proof -
  have e: "attempt (faults (expenseTables w)) = (False, fs)"
    and i: "attempt (faults (incomeTables w)) = (False, fs)"
    using assms by (simp_all add: expenseTables_def incomeTables_def)
  have te: "templates (expenseTables w) = recurringExpense w"
    and ti: "templates (incomeTables w) = recurringIncome w"
    by (simp_all add: expenseTables_def incomeTables_def)
  note ue = updateRecurring_guards [OF e, unfolded te]
    and de = deleteRecurring_guards [OF e, unfolded te]
    and ui = updateRecurring_guards [OF i, unfolded ti]
    and di = deleteRecurring_guards [OF i, unfolded ti]
  show ?thesis
    by (simp add: updateRecurringExpense_def deleteRecurringExpense_def
        updateRecurringIncome_def deleteRecurringIncome_def ue de ui di
        put_expense_faults put_income_faults)
qed

theorem missing_is_404_foreign_is_403_witness:
  "attempt (pending (storeOf [rentTemplate] [])) = (False, [])
   \<and> find (\<lambda>r. rid r = ''r9'') (recurringExpense (storeOf [rentTemplate] [])) = None
   \<and> find (\<lambda>r. rid r = ''r1'') (recurringExpense (storeOf [rentTemplate] [])) = Some rentTemplate
   \<and> userId rentTemplate \<noteq> ''u2''
   \<and> fst (updateRecurringExpense ''u2'' ''r9'' noChange (storeOf [rentTemplate] [])) = NotFound
   \<and> fst (updateRecurringExpense ''u2'' ''r1'' noChange (storeOf [rentTemplate] [])) = NotAuthorized
   \<and> fst (deleteRecurringExpense ''u2'' ''r9'' (storeOf [rentTemplate] [])) = NotFound
   \<and> fst (deleteRecurringExpense ''u2'' ''r1'' (storeOf [rentTemplate] [])) = NotAuthorized"
proof -
  have a: "attempt (pending (storeOf [rentTemplate] [])) = (False, [])"
    by (simp add: attempt_def storeOf_def)
  have f: "find (\<lambda>r. rid r = ''r9'') (recurringExpense (storeOf [rentTemplate] [])) = None"
    "find (\<lambda>r. rid r = ''r1'') (recurringExpense (storeOf [rentTemplate] [])) = Some rentTemplate"
    "userId rentTemplate \<noteq> ''u2''"
    by (simp_all add: storeOf_def rentTemplate_def)
  show ?thesis
    using a f missing_is_404_foreign_is_403 [OF a, of "''r9''" "''u2''" noChange]
      missing_is_404_foreign_is_403 [OF a, of "''r1''" "''u2''" noChange]
    by simp
qed

text \<open>
  C8. The claim: in every state reachable through create, owner update and batch
  processing the next date is not before the start date. The update handler writes
  every column the body names but for \<open>userId\<close>, \<open>startDate\<close> and \<open>createdAt\<close>;
  a body naming \<open>nextDate\<close> moves it before the start date.
\<close>

theorem update_moves_next_before_anchor:
  "createRecurringExpense ''u1'' rentBody ''r1'' (storeOf [] []) = (Created, storeOf [rentTemplate] [])
   \<and> updateRecurringExpense ''u1'' ''r1''
        (noChange\<lparr>newNextDate := Some \<lparr>year = 2025, month = 0, day = 1, millis = 0\<rparr>\<rparr>) (storeOf [rentTemplate] [])
     = (Updated, storeOf [rentTemplate\<lparr>nextDate := \<lparr>year = 2025, month = 0, day = 1, millis = 0\<rparr>\<rparr>] [])
   \<and> startDate (rentTemplate\<lparr>nextDate := \<lparr>year = 2025, month = 0, day = 1, millis = 0\<rparr>\<rparr>)
       = \<lparr>year = 2025, month = 0, day = 31, millis = 0\<rparr>
   \<and> \<not> date_le (startDate (rentTemplate\<lparr>nextDate := \<lparr>year = 2025, month = 0, day = 1, millis = 0\<rparr>\<rparr>))
              (nextDate (rentTemplate\<lparr>nextDate := \<lparr>year = 2025, month = 0, day = 1, millis = 0\<rparr>\<rparr>))"
proof -
  have "updateRecurringExpense ''u1'' ''r1''
        (noChange\<lparr>newNextDate := Some \<lparr>year = 2025, month = 0, day = 1, millis = 0\<rparr>\<rparr>) (storeOf [rentTemplate] [])
     = (Updated, storeOf [rentTemplate\<lparr>nextDate := \<lparr>year = 2025, month = 0, day = 1, millis = 0\<rparr>\<rparr>] [])"
    by (simp add: updateRecurringExpense_def updateRecurring_def noChange_def storeOf_def rentTemplate_def
        expenseTables_def putExpenseTables_def attempt_def truthy_def applyUpdates_def orElse_def
        changeExpense_def)
  then show ?thesis
    by (simp add: create_rent) (simp add: rentTemplate_def date_le_def date_lt_def)
qed

text \<open>
  C8, as amended. In every state reachable through create, delete, batch processing
  and owner updates whose body does not name \<open>nextDate\<close>, the next date of every
  template is not before its start date; and a template that create accepts starts
  with the next date equal to the start date, active, and with an end date, when it
  has one, strictly after the start date.
\<close>

theorem reachable_next_not_before_anchor:
  assumes "reachable w"
  shows "(\<forall>r\<in>set (recurringExpense w). date_le (startDate r) (nextDate r))
       \<and> (\<forall>r\<in>set (recurringIncome w). date_le (startDate r) (nextDate r))
       \<and> (\<forall>uid body newId w'. createRecurringExpense uid body newId w = (Created, w') \<longrightarrow>
            (\<exists>row. recurringExpense w' = recurringExpense w @ [row]
               \<and> nextDate row = startDate row \<and> isActive row
               \<and> (case endDate row of None \<Rightarrow> True | Some e \<Rightarrow> date_lt (startDate row) e)))
       \<and> (\<forall>uid body newId w'. createRecurringIncome uid body newId w = (Created, w') \<longrightarrow>
            (\<exists>row. recurringIncome w' = recurringIncome w @ [row]
               \<and> nextDate row = startDate row \<and> isActive row
               \<and> (case endDate row of None \<Rightarrow> True | Some e \<Rightarrow> date_lt (startDate row) e)))"
proof -
  have inv: "storeInv w" using assms by (rule reachable_inv)
  have a: "\<forall>r\<in>set (recurringExpense w). date_le (startDate r) (nextDate r)"
    and b: "\<forall>r\<in>set (recurringIncome w). date_le (startDate r) (nextDate r)"
    using inv by (simp_all add: storeInv_def list_all_iff anchored_def)
  have c: "\<exists>row. recurringExpense w' = recurringExpense w @ [row]
               \<and> nextDate row = startDate row \<and> isActive row
               \<and> (case endDate row of None \<Rightarrow> True | Some e \<Rightarrow> date_lt (startDate row) e)"
    if "createRecurringExpense uid body newId w = (Created, w')" for uid body newId w'
  proof -
    obtain r0 t' where rt: "createRecurring expenseDetails uid body newId (expenseTables w) = (r0, t')"
      by (cases "createRecurring expenseDetails uid body newId (expenseTables w)")
    have t': "createRecurring expenseDetails uid body newId (expenseTables w) = (Created, t')"
      and w': "w' = putExpenseTables t' w"
      using that rt by (simp_all add: createRecurringExpense_def)
    from createRecurring_created [OF t'] show ?thesis
      by (simp add: w' putExpenseTables_def expenseTables_def)
  qed
  have d: "\<exists>row. recurringIncome w' = recurringIncome w @ [row]
               \<and> nextDate row = startDate row \<and> isActive row
               \<and> (case endDate row of None \<Rightarrow> True | Some e \<Rightarrow> date_lt (startDate row) e)"
    if "createRecurringIncome uid body newId w = (Created, w')" for uid body newId w'
  proof -
    obtain r0 t' where rt: "createRecurring incomeDetails uid body newId (incomeTables w) = (r0, t')"
      by (cases "createRecurring incomeDetails uid body newId (incomeTables w)")
    have t': "createRecurring incomeDetails uid body newId (incomeTables w) = (Created, t')"
      and w': "w' = putIncomeTables t' w"
      using that rt by (simp_all add: createRecurringIncome_def)
    from createRecurring_created [OF t'] show ?thesis
      by (simp add: w' putIncomeTables_def incomeTables_def)
  qed
  show ?thesis using a b c d by blast
qed

theorem reachable_next_not_before_anchor_witness:
  "reachable (snd (processRecurringTransactions \<lparr>year = 2025, month = 1, day = 1, millis = 0\<rparr>
       (snd (createRecurringExpense ''u1'' rentBody ''r1'' (storeOf [] [])))))
   \<and> recurringExpense (snd (processRecurringTransactions \<lparr>year = 2025, month = 1, day = 1, millis = 0\<rparr>
       (snd (createRecurringExpense ''u1'' rentBody ''r1'' (storeOf [] [])))))
       = [rentTemplate\<lparr>nextDate := \<lparr>year = 2025, month = 1, day = 28, millis = 0\<rparr>\<rparr>]
   \<and> date_le \<lparr>year = 2025, month = 0, day = 31, millis = 0\<rparr> \<lparr>year = 2025, month = 1, day = 28, millis = 0\<rparr>"
proof -
  let ?w = "snd (processRecurringTransactions \<lparr>year = 2025, month = 1, day = 1, millis = 0\<rparr>
       (snd (createRecurringExpense ''u1'' rentBody ''r1'' (storeOf [] []))))"
  have "reachable (storeOf [] [])" unfolding storeOf_def by (rule reachable.initial)
  moreover have "wellFormed rentBody"
    by (simp add: wellFormed_def rentBody_def valid_date_def daysInMonth_def)
  ultimately have "reachable (snd (createRecurringExpense ''u1'' rentBody ''r1'' (storeOf [] [])))"
    by (rule reachable.createExpense)
  then have r: "reachable ?w" by (rule reachable.process)
  have rows: "recurringExpense ?w = [rentTemplate\<lparr>nextDate := \<lparr>year = 2025, month = 1, day = 28, millis = 0\<rparr>\<rparr>]"
    by (simp add: create_rent) (simp add: store_defs example_defs)
  from reachable_next_not_before_anchor [OF r]
  have "\<forall>x\<in>set (recurringExpense ?w). date_le (startDate x) (nextDate x)" by blast
  then have "date_le \<lparr>year = 2025, month = 0, day = 31, millis = 0\<rparr> \<lparr>year = 2025, month = 1, day = 28, millis = 0\<rparr>"
    unfolding rows by (simp add: rentTemplate_def)
  with r rows show ?thesis by blast
qed

end
